theory Spec2Isabelle
  imports Complex_Main
begin

section \<open>Data model of \<open>template_finder.py\<close>\<close>

text \<open>
  Exceptions the Python code itself can raise. \<open>KeyError\<close> carries the key that was not
  found in the template dictionary.
\<close>

datatype error =
    KeyError string
  | ValueError
  | IndexError
  | ZeroDivisionError
  | UnboundLocalError

text \<open>
  The dataclass \<open>TemplateMatch\<close>; \<open>None\<close> for \<open>name\<close> and \<open>position\<close> is \<open>None\<close> here.
  Scores are Python floats; they are modelled as reals (exact arithmetic, no NaN).
\<close>

record TemplateMatch =
  name :: "string option"
  score :: real
  position :: "(int \<times> int) option"
  valid :: bool

definition new_TemplateMatch :: TemplateMatch where
  "new_TemplateMatch = \<lparr>name = None, score = - 1, position = None, valid = False\<rparr>"

text \<open>
  An image is a numpy array of shape (rows, columns, channels) holding \<open>uint8\<close> values:
  a list of rows, each a list of pixels, each a list of channel values.
\<close>

type_synonym image = "nat list list list"

definition shape0 :: "image \<Rightarrow> nat" where
  "shape0 im = length im"

definition shape1 :: "image \<Rightarrow> nat" where
  "shape1 im = (case im of [] \<Rightarrow> 0 | r # _ \<Rightarrow> length r)"

text \<open>Python's slice \<open>xs[a:b]\<close> for integer bounds (negative bounds count from the end).\<close>

definition slice_bound :: "int \<Rightarrow> nat \<Rightarrow> nat" where
  "slice_bound i n = (if i < 0 then nat (max (i + int n) 0) else min (nat i) n)"

definition py_slice :: "int \<Rightarrow> int \<Rightarrow> 'a list \<Rightarrow> 'a list" where
  "py_slice a b xs =
     (let n = length xs; s = slice_bound a n; e = slice_bound b n
      in take (e - s) (drop s xs))"

text \<open>\<open>inp_img[ry:ry + rh, rx:rx + rw]\<close>\<close>

definition crop :: "image \<Rightarrow> int \<Rightarrow> int \<Rightarrow> int \<Rightarrow> int \<Rightarrow> image" where
  "crop inp_img rx ry rw rh = map (py_slice rx (rx + rw)) (py_slice ry (ry + rh) inp_img)"

text \<open>Python's \<open>int(x)\<close> on a float: truncation towards zero.\<close>

definition py_int :: "real \<Rightarrow> int" where
  "py_int x = (if 0 \<le> x then \<lfloor>x\<rfloor> else \<lceil>x\<rceil>)"

text \<open>Python's \<open>max(xs)\<close> and \<open>xs.index(v)\<close> on a non-empty list.\<close>

fun py_max :: "real list \<Rightarrow> real" where
  "py_max [] = 0"
| "py_max [x] = x"
| "py_max (x # y # ys) = max x (py_max (y # ys))"

definition py_index :: "real list \<Rightarrow> real \<Rightarrow> nat" where
  "py_index xs v = length (takeWhile (\<lambda>x. x \<noteq> v) xs)"

text \<open>
  The OpenCV kernel is an external collaborator; the three functions the code calls are
  parameters. \<open>minMaxLoc\<close> returns \<open>(min_val, max_val, min_loc, max_loc)\<close>.
\<close>

record 'fld cv2 =
  resize :: "image \<Rightarrow> real \<Rightarrow> image"
  matchTemplate :: "image \<Rightarrow> image \<Rightarrow> 'fld"
  minMaxLoc :: "'fld \<Rightarrow> real \<times> real \<times> (int \<times> int) \<times> (int \<times> int)"

text \<open>
  The entries of \<open>Config\<close> that the code reads: \<open>advanced_options["template_threshold"]\<close>,
  the width \<open>ui_roi["loading_left_black"][2]\<close> and \<open>general["info_screenshots"]\<close>.
\<close>

record config =
  template_threshold :: real
  loading_left_black_width :: int
  info_screenshots :: bool

text \<open>The argument \<open>ref\<close>: a string, a list of strings, or an image array.\<close>

datatype ref = Key string | KeyList "string list" | RawImage image

fun py_len :: "ref \<Rightarrow> nat" where
  "py_len (Key k) = length k"
| "py_len (KeyList ks) = length ks"
| "py_len (RawImage im) = length im"

text \<open>
  The instance state of \<open>TemplateFinder\<close>: the dictionary \<open>_templates\<close>, mapping a key to
  the pair of the template image and its scale, and \<open>last_res\<close>.
\<close>

record 'fld finder =
  templates :: "string \<rightharpoonup> (image \<times> real)"
  last_res :: "'fld option"

text \<open>
  Lines 30 to 38, the construction of the store: for every path whose file name ends in
  \<open>.png\<close>, the key is the upper-cased name without its last four characters and the
  entry is the loaded image with scale \<open>1.0\<close>. \<open>load_template\<close>, \<open>os.path.basename\<close> and
  \<open>str.upper\<close> are parameters; \<open>pathes\<close> is the concatenation of the two directory
  listings.
\<close>

definition endswith_png :: "string \<Rightarrow> bool" where
  "endswith_png file_name =
     (4 \<le> length file_name \<and> drop (length file_name - 4) file_name = ''.png'')"

definition TemplateFinder_init ::
  "(string \<Rightarrow> real \<Rightarrow> image) \<Rightarrow> (string \<Rightarrow> string) \<Rightarrow> (string \<Rightarrow> string) \<Rightarrow> string list \<Rightarrow>
     'fld finder" where
  "TemplateFinder_init load_template basename upper pathes =
     \<lparr>templates =
        fold (\<lambda>file_path m.
                let file_name = basename file_path in
                if endswith_png file_name
                then m(upper (py_slice 0 (- 4) file_name) \<mapsto> (load_template file_path 1, 1))
                else m)
             pathes Map.empty,
      last_res = None\<rparr>"


text \<open>
  The variables of one call of \<open>search\<close> that the loop reads and assigns. \<open>roi\<close> is the
  list object the name \<open>roi\<close> refers to (the caller's list when one is passed); \<open>rx\<close>, \<open>ry\<close>,
  \<open>rw\<close>, \<open>rh\<close> are the local numbers unpacked from it. \<open>template_match\<close> is unbound
  (\<open>None\<close>) until the loop body assigns it.
\<close>

record 'fld frame =
  self :: "'fld finder"
  roi :: "int list"
  rx :: real
  ry :: real
  rw :: real
  rh :: real
  scores :: "real list"
  ref_points :: "(int \<times> int) list"
  template_match :: "TemplateMatch option"

datatype 'fld outcome =
    Continue "'fld frame"
  | Return TemplateMatch "'fld frame"
  | Raise error "'fld frame"

section \<open>\<open>TemplateFinder.search\<close>\<close>

text \<open>
  \<open>try: template_match.name = names[i]  except: pass\<close>. The name \<open>names\<close> is unbound when
  \<open>ref\<close> is an image (\<open>None\<close> here); the bare \<open>except\<close> swallows both that and an index
  out of range, leaving the old name.
\<close>

definition name_at :: "string list option \<Rightarrow> nat \<Rightarrow> string option \<Rightarrow> string option" where
  "name_at names i old =
     (case names of
        None \<Rightarrow> old
      | Some ns \<Rightarrow> if i < length ns then Some (ns ! i) else old)"

text \<open>Lines 68 to 80: the templates, scales and names for \<open>ref\<close>, and the selection mode.\<close>

fun lookup_all :: "(string \<rightharpoonup> (image \<times> real)) \<Rightarrow> string list \<Rightarrow> error + (image \<times> real) list" where
  "lookup_all m [] = Inr []"
| "lookup_all m (k # ks) =
     (case m k of
        None \<Rightarrow> Inl (KeyError k)
      | Some e \<Rightarrow> (case lookup_all m ks of Inl err \<Rightarrow> Inl err | Inr es \<Rightarrow> Inr (e # es)))"

fun resolve_ref ::
  "(string \<rightharpoonup> (image \<times> real)) \<Rightarrow> ref \<Rightarrow> bool \<Rightarrow>
     error + (image list \<times> real list \<times> string list option \<times> bool)" where
  "resolve_ref m (Key k) best_match =
     (case m k of
        None \<Rightarrow> Inl (KeyError k)
      | Some (t, s) \<Rightarrow> Inr ([t], [s], Some [k], False))"
| "resolve_ref m (KeyList ks) best_match =
     (case lookup_all m ks of
        Inl err \<Rightarrow> Inl err
      | Inr es \<Rightarrow> Inr (map fst es, map snd es, Some ks, best_match))"
| "resolve_ref m (RawImage im) best_match = Inr ([im], [1], None, False)"

text \<open>
  Lines 85 to 113: one iteration of the loop over \<open>enumerate(templates)\<close>. The four
  assignments \<open>rx *= scale\<close> \<open>\<dots>\<close> update the variables in place, so they carry over to
  the next iteration.
\<close>

definition search_step ::
  "'fld cv2 \<Rightarrow> (int \<times> int \<Rightarrow> int \<times> int) \<Rightarrow> real \<Rightarrow> bool \<Rightarrow> bool \<Rightarrow> image \<Rightarrow>
     real list \<Rightarrow> string list option \<Rightarrow> nat \<Rightarrow> image \<Rightarrow> 'fld frame \<Rightarrow> 'fld outcome" where
  "search_step K convert_screen_to_monitor threshold normalize_monitor best_match inp_img
       scales names count template fr0 =
     (let fr1 = fr0\<lparr>template_match := Some new_TemplateMatch\<rparr> in
      if \<not> count < length scales then Raise IndexError fr1
      else
        let scale = scales ! count;
            img = resize K inp_img scale;
            fr2 = fr1\<lparr>rx := rx fr1 * scale, ry := ry fr1 * scale,
                      rw := rw fr1 * scale, rh := rh fr1 * scale\<rparr>
        in
          if shape0 img > shape0 template \<and> shape1 img > shape1 template then
            let res = matchTemplate K img template;
                fr3 = fr2\<lparr>self := (self fr2)\<lparr>last_res := Some res\<rparr>\<rparr>;
                max_val = fst (snd (minMaxLoc K res));
                max_pos = snd (snd (snd (minMaxLoc K res)))
            in
              if max_val > threshold then
                let p = (real_of_int (fst max_pos)
                           + real_of_int (py_int (real (shape1 template) * 0.5)) + rx fr3,
                         real_of_int (snd max_pos)
                           + real_of_int (py_int (real (shape0 template) * 0.5)) + ry fr3)
                in
                  if scale = 0 then Raise ZeroDivisionError fr3
                  else
                    let q = (py_int (fst p * (1 / scale)), py_int (snd p * (1 / scale)));
                        ref_point = (if normalize_monitor then convert_screen_to_monitor q else q)
                    in
                      if best_match then
                        if \<not> count < length (scores fr3) then Raise IndexError fr3
                        else
                          let fr4 = fr3\<lparr>scores := (scores fr3)[count := max_val]\<rparr> in
                          if \<not> count < length (ref_points fr4) then Raise IndexError fr4
                          else Continue (fr4\<lparr>ref_points := (ref_points fr4)[count := ref_point]\<rparr>)
                      else
                        let m = new_TemplateMatch
                                  \<lparr>name := name_at names count None,
                                   position := Some ref_point,
                                   score := max_val,
                                   valid := True\<rparr>
                        in Return m (fr3\<lparr>template_match := Some m\<rparr>)
              else Continue fr3
          else Continue fr2)"

fun search_loop ::
  "'fld cv2 \<Rightarrow> (int \<times> int \<Rightarrow> int \<times> int) \<Rightarrow> real \<Rightarrow> bool \<Rightarrow> bool \<Rightarrow> image \<Rightarrow>
     real list \<Rightarrow> string list option \<Rightarrow> nat \<Rightarrow> image list \<Rightarrow> 'fld frame \<Rightarrow> 'fld outcome" where
  "search_loop K conv threshold normalize_monitor best_match inp_img scales names count [] fr =
     Continue fr"
| "search_loop K conv threshold normalize_monitor best_match inp_img scales names count
       (template # rest) fr =
     (case search_step K conv threshold normalize_monitor best_match inp_img scales names
             count template fr of
        Continue fr' \<Rightarrow>
          search_loop K conv threshold normalize_monitor best_match inp_img scales names
            (Suc count) rest fr'
      | Return m fr' \<Rightarrow> Return m fr'
      | Raise e fr' \<Rightarrow> Raise e fr')"

text \<open>
  Lines 115 to 123, after the loop. \<open>max(scores)\<close> raises \<open>ValueError\<close> on an empty list.
\<close>

definition select_best :: "string list option \<Rightarrow> 'fld frame \<Rightarrow> 'fld outcome" where
  "select_best names fr =
     (if scores fr = [] then Raise ValueError fr
      else if py_max (scores fr) > 0 then
        let idx = py_index (scores fr) (py_max (scores fr)) in
        (case template_match fr of
           None \<Rightarrow> Raise UnboundLocalError fr
         | Some m0 \<Rightarrow>
             let m1 = m0\<lparr>name := name_at names idx (name m0)\<rparr> in
             if \<not> idx < length (ref_points fr) then Raise IndexError (fr\<lparr>template_match := Some m1\<rparr>)
             else
               let m2 = m1\<lparr>position := Some (ref_points fr ! idx)\<rparr>;
                   m3 = m2\<lparr>score := scores fr ! idx\<rparr>;
                   m4 = m3\<lparr>valid := True\<rparr>
               in Return m4 (fr\<lparr>template_match := Some m4\<rparr>))
      else
        (case template_match fr of
           None \<Rightarrow> Raise UnboundLocalError fr
         | Some m0 \<Rightarrow> Return m0 fr))"

text \<open>
  Line 61 (and line 145): the threshold, read from the configuration when the caller
  passes \<open>None\<close>.
\<close>

definition resolve_threshold :: "config \<Rightarrow> real option \<Rightarrow> real" where
  "resolve_threshold cfg threshold =
     (case threshold of None \<Rightarrow> template_threshold cfg | Some t \<Rightarrow> t)"

text \<open>
  The whole of \<open>search\<close>. The result is the returned match or the raised exception,
  together with the instance state and the list bound to \<open>roi\<close> when the call ends.
\<close>

definition search_frame ::
  "'fld cv2 \<Rightarrow> config \<Rightarrow> (int \<times> int \<Rightarrow> int \<times> int) \<Rightarrow> 'fld finder \<Rightarrow> ref \<Rightarrow> image \<Rightarrow>
     real option \<Rightarrow> int list option \<Rightarrow> bool \<Rightarrow> bool \<Rightarrow> (error + TemplateMatch) \<times> 'fld finder \<times> int list" where
  "search_frame K cfg conv st ref inp_img threshold roi_arg normalize_monitor best_match =
     (let threshold = resolve_threshold cfg threshold;
          roi_list = (case roi_arg of
                        None \<Rightarrow> [0, 0, int (shape1 inp_img), int (shape0 inp_img)]
                      | Some r \<Rightarrow> r)
      in
        case roi_list of
          [rx0, ry0, rw0, rh0] \<Rightarrow>
            (let cropped = crop inp_img rx0 ry0 rw0 rh0 in
             case resolve_ref (templates st) ref best_match of
               Inl err \<Rightarrow> (Inl err, st, roi_list)
             | Inr (tmpls, scales, names, best_match') \<Rightarrow>
                 (let fr = \<lparr>self = st, roi = roi_list,
                            rx = real_of_int rx0, ry = real_of_int ry0,
                            rw = real_of_int rw0, rh = real_of_int rh0,
                            scores = replicate (py_len ref) 0,
                            ref_points = replicate (py_len ref) (0, 0),
                            template_match = None\<rparr>
                  in
                    case search_loop K conv threshold normalize_monitor best_match' cropped
                           scales names 0 tmpls fr of
                      Return m fr' \<Rightarrow> (Inr m, self fr', roi fr')
                    | Raise e fr' \<Rightarrow> (Inl e, self fr', roi fr')
                    | Continue fr' \<Rightarrow>
                        (case select_best names fr' of
                           Return m fr'' \<Rightarrow> (Inr m, self fr'', roi fr'')
                         | Raise e fr'' \<Rightarrow> (Inl e, self fr'', roi fr'')
                         | Continue fr'' \<Rightarrow> (Inl UnboundLocalError, self fr'', roi fr''))))
        | _ \<Rightarrow> (Inl ValueError, st, roi_list))"

definition search ::
  "'fld cv2 \<Rightarrow> config \<Rightarrow> (int \<times> int \<Rightarrow> int \<times> int) \<Rightarrow> 'fld finder \<Rightarrow> ref \<Rightarrow> image \<Rightarrow>
     real option \<Rightarrow> int list option \<Rightarrow> bool \<Rightarrow> bool \<Rightarrow> error + TemplateMatch" where
  "search K cfg conv st ref inp_img threshold roi_arg normalize_monitor best_match =
     fst (search_frame K cfg conv st ref inp_img threshold roi_arg normalize_monitor best_match)"

section \<open>\<open>TemplateFinder.search_and_wait\<close>\<close>

text \<open>
  The environment of the polling loop: iteration \<open>i\<close> (counted from 0) receives the image
  \<open>grab w i\<close> from \<open>screen.grab()\<close>; \<open>start_time w\<close> is the reading of \<open>time.time()\<close>
  before the loop and \<open>time_at w i\<close> the reading in iteration \<open>i\<close>.
\<close>

record world =
  grab :: "nat \<Rightarrow> image"
  start_time :: real
  time_at :: "nat \<Rightarrow> real"

text \<open>The argument \<open>ref\<close> of \<open>search_and_wait\<close>: a string or a list of strings.\<close>

datatype wait_ref = WaitKey string | WaitKeys "string list"

fun as_list :: "wait_ref \<Rightarrow> string list" where
  "as_list (WaitKey k) = [k]"
| "as_list (WaitKeys ks) = ks"

text \<open>
  \<open>np.average(img[:, 0:w]) < 1.0\<close>: the mean over every channel value of the columns
  \<open>0:w\<close>. On an empty selection numpy yields NaN, and the comparison is false.
\<close>

definition is_loading_black_roi :: "config \<Rightarrow> image \<Rightarrow> bool" where
  "is_loading_black_roi cfg img =
     (let vals = concat (concat (map (py_slice 0 (loading_left_black_width cfg)) img))
      in vals \<noteq> [] \<and> real (sum_list vals) / real (length vals) < 1)"

text \<open>
  The loop \<open>while 1\<close> from iteration \<open>i\<close> on. The result is \<open>None\<close> when the loop never
  returns; otherwise the returned match or the raised exception, the instance state, and
  the images written by \<open>cv2.imwrite\<close>.
\<close>

partial_function (option) wait_loop ::
  "'fld cv2 \<Rightarrow> config \<Rightarrow> (int \<times> int \<Rightarrow> int \<times> int) \<Rightarrow> world \<Rightarrow> string list \<Rightarrow>
     int list option \<Rightarrow> real option \<Rightarrow> real \<Rightarrow> bool \<Rightarrow> bool \<Rightarrow> nat \<Rightarrow> 'fld finder \<Rightarrow>
     ((error + TemplateMatch) \<times> 'fld finder \<times> image list) option" where
  "wait_loop K cfg conv w ref roi_arg time_out threshold best_match take_ss i st =
     (let img = grab w i in
      case search_frame K cfg conv st (KeyList ref) img (Some threshold) roi_arg False best_match of
        (Inl e, st', r) \<Rightarrow> Some (Inl e, st', [])
      | (Inr m, st', r) \<Rightarrow>
          if \<not> is_loading_black_roi cfg img \<or> ''LOADING'' \<in> set ref then
            if valid m then Some (Inr m, st', [])
            else if (case time_out of None \<Rightarrow> False | Some t \<Rightarrow> time_at w i - start_time w > t) then
              Some (Inr m, st',
                    if info_screenshots cfg \<and> take_ss then [img] else [])
            else wait_loop K cfg conv w ref roi_arg time_out threshold best_match take_ss (Suc i) st'
          else wait_loop K cfg conv w ref roi_arg time_out threshold best_match take_ss (Suc i) st')"

declare wait_loop.simps [code]

definition search_and_wait ::
  "'fld cv2 \<Rightarrow> config \<Rightarrow> (int \<times> int \<Rightarrow> int \<times> int) \<Rightarrow> world \<Rightarrow> 'fld finder \<Rightarrow> wait_ref \<Rightarrow>
     int list option \<Rightarrow> real option \<Rightarrow> real option \<Rightarrow> bool \<Rightarrow> bool \<Rightarrow>
     ((error + TemplateMatch) \<times> 'fld finder \<times> image list) option" where
  "search_and_wait K cfg conv w st ref roi_arg time_out threshold best_match take_ss =
     (let ref = as_list ref;
          threshold = resolve_threshold cfg threshold
      in wait_loop K cfg conv w ref roi_arg time_out threshold best_match take_ss 0 st)"

section \<open>A stub kernel and concrete inputs\<close>

text \<open>
  A test double for the kernel, used to run the code on concrete inputs.
  \<open>stub_resize\<close> is nearest-neighbour scaling by a whole factor. \<open>stub_score\<close> reads the
  score off the first channel of the template's top-left pixel and of the image's pixel in
  row 0, column 1; the score field is that single score, found at anchor \<open>(0, 0)\<close>.
\<close>

definition stub_resize :: "image \<Rightarrow> real \<Rightarrow> image" where
  "stub_resize im s =
     (let n = nat \<lfloor>s\<rfloor> in concat (map (\<lambda>r. replicate n (concat (map (replicate n) r))) im))"

definition stub_score :: "image \<Rightarrow> image \<Rightarrow> real" where
  "stub_score img t =
     (case t of
        ((vt # _) # _) # _ \<Rightarrow>
          (case img of
             (_ # (vi # _) # _) # _ \<Rightarrow> (real vt - real vi) / 100 - 1
           | _ \<Rightarrow> - 1)
      | _ \<Rightarrow> - 1)"

definition stub_cv2 :: "real cv2" where
  "stub_cv2 =
     \<lparr>resize = stub_resize, matchTemplate = stub_score,
      minMaxLoc = (\<lambda>f. (f, f, (0, 0), (0, 0)))\<rparr>"

definition stub_config :: config where
  "stub_config = \<lparr>template_threshold = 0.68, loading_left_black_width = 1, info_screenshots = False\<rparr>"

text \<open>A 1 x 1 template whose stub score on an image with a zero pixel is \<open>v / 100 - 1\<close>.\<close>

definition dot :: "nat \<Rightarrow> image" where
  "dot v = [[[v]]]"

text \<open>Two 2 x 2 captures: an all-black one, and one whose left column is not black.\<close>

definition black_frame :: image where
  "black_frame = [[[0], [0]], [[0], [0]]]"

definition lit_frame :: image where
  "lit_frame = [[[9], [10]], [[9], [0]]]"

text \<open>A store of three 1 x 1 templates, all with scale 1 as the loader records it.\<close>

definition store_abc :: "real finder" where
  "store_abc =
     \<lparr>templates = [''A'' \<mapsto> (dot 140, 1), ''B'' \<mapsto> (dot 190, 1), ''C'' \<mapsto> (dot 190, 1)],
      last_res = None\<rparr>"

text \<open>
  A store whose two templates score \<open>- 0.2\<close> under the stub on an image with a zero pixel,
  and a store of two 2 x 2 templates recorded with scale 2.
\<close>

definition store_low :: "real finder" where
  "store_low =
     \<lparr>templates = [''M'' \<mapsto> (dot 80, 1), ''N'' \<mapsto> (dot 80, 1)], last_res = None\<rparr>"

definition tile :: "nat \<Rightarrow> image" where
  "tile v = [[[v], [0]], [[0], [0]]]"

definition store_scaled :: "real finder" where
  "store_scaled =
     \<lparr>templates = [''A'' \<mapsto> (tile 120, 2), ''B'' \<mapsto> (tile 190, 2)], last_res = None\<rparr>"

text \<open>A black capture of 4 rows and 6 columns.\<close>

definition wide_frame :: image where
  "wide_frame =
     [[[0], [0], [0], [0], [0], [0]],
      [[0], [0], [0], [0], [0], [0]],
      [[0], [0], [0], [0], [0], [0]],
      [[0], [0], [0], [0], [0], [0]]]"

text \<open>
  Two environments: one whose first capture is black and whose later captures are lit,
  one whose captures are all black. The clock reads the iteration number.
\<close>

definition world_black_then_lit :: world where
  "world_black_then_lit =
     \<lparr>grab = (\<lambda>i. if i = 0 then black_frame else lit_frame),
      start_time = 0, time_at = (\<lambda>i. real i)\<rparr>"

definition world_black :: world where
  "world_black = \<lparr>grab = (\<lambda>i. black_frame), start_time = 0, time_at = (\<lambda>i. real i)\<rparr>"

definition world_lit :: world where
  "world_lit = \<lparr>grab = (\<lambda>i. lit_frame), start_time = 0, time_at = (\<lambda>i. real i)\<rparr>"

section \<open>Notions used in the statements\<close>

text \<open>The keys a reference names, in the order in which \<open>search\<close> looks them up.\<close>

fun ref_keys :: "ref \<Rightarrow> string list" where
  "ref_keys (Key k) = [k]"
| "ref_keys (KeyList ks) = ks"
| "ref_keys (RawImage im) = []"

text \<open>The documented format of \<open>roi\<close>: \<open>[left, top, width, height]\<close>, or \<open>None\<close>.\<close>

definition roi_well_formed :: "int list option \<Rightarrow> bool" where
  "roi_well_formed roi_arg = (case roi_arg of None \<Rightarrow> True | Some r \<Rightarrow> length r = 4)"

text \<open>The list bound to \<open>roi\<close> after lines 62 to 64.\<close>

definition roi_bound :: "image \<Rightarrow> int list option \<Rightarrow> int list" where
  "roi_bound inp_img roi_arg =
     (case roi_arg of
        None \<Rightarrow> [0, 0, int (shape1 inp_img), int (shape0 inp_img)]
      | Some r \<Rightarrow> r)"

text \<open>
  The position that steps 4 and 5 of the specified algorithm give a candidate with anchor
  \<open>max_pos\<close>, scale \<open>s\<close> and region origin \<open>(rx, ry)\<close>: the anchor offset by half the
  template's width and height, plus the origin multiplied by \<open>s\<close>, divided by \<open>s\<close>.
\<close>

definition own_scale_center :: "int \<times> int \<Rightarrow> image \<Rightarrow> real \<Rightarrow> int \<times> int \<Rightarrow> int \<times> int" where
  "own_scale_center max_pos template s origin =
     (py_int ((real_of_int (fst max_pos) + real_of_int (py_int (real (shape1 template) * 0.5))
                + real_of_int (fst origin) * s) / s),
      py_int ((real_of_int (snd max_pos) + real_of_int (py_int (real (shape0 template) * 0.5))
                + real_of_int (snd origin) * s) / s))"

text \<open>
  The invariant of the candidate loop: an entry of \<open>scores\<close> is the initial 0 or a score
  above the threshold, and the match object of the current iteration is not marked valid.
\<close>

definition scores_inv :: "real \<Rightarrow> 'fld frame \<Rightarrow> bool" where
  "scores_inv t fr =
     ((\<forall>x \<in> set (scores fr). x = 0 \<or> t < x)
      \<and> (\<forall>m. template_match fr = Some m \<longrightarrow> \<not> valid m))"

text \<open>The frame an outcome carries.\<close>

fun frame_of :: "'fld outcome \<Rightarrow> 'fld frame" where
  "frame_of (Continue fr) = fr"
| "frame_of (Return m fr) = fr"
| "frame_of (Raise e fr) = fr"

text \<open>
  What lines 88 to 99 compute for one candidate \<open>e = (template, scale)\<close> on the cropped
  image: its maximal score (\<open>None\<close> when the guard on line 94 skips it), whether that
  exceeds the threshold, the entry that best-match mode leaves in \<open>scores\<close>, and its
  reference point for a given scaled origin \<open>(rx, ry)\<close>. \<open>recorded_points\<close> is the list
  \<open>ref_points\<close> of best-match mode, with the origin multiplied by each scale in turn, and
  \<open>best_match_of\<close> the match that lines 115 to 123 build from the two lists.
\<close>

definition candidate_score :: "'fld cv2 \<Rightarrow> image \<Rightarrow> image \<times> real \<Rightarrow> real option" where
  "candidate_score K inp e =
     (let img = resize K inp (snd e) in
      if shape0 img > shape0 (fst e) \<and> shape1 img > shape1 (fst e)
      then Some (fst (snd (minMaxLoc K (matchTemplate K img (fst e)))))
      else None)"

definition exceeds :: "'fld cv2 \<Rightarrow> real \<Rightarrow> image \<Rightarrow> image \<times> real \<Rightarrow> bool" where
  "exceeds K t inp e = (case candidate_score K inp e of None \<Rightarrow> False | Some v \<Rightarrow> t < v)"

definition recorded :: "'fld cv2 \<Rightarrow> real \<Rightarrow> image \<Rightarrow> image \<times> real \<Rightarrow> real" where
  "recorded K t inp e =
     (case candidate_score K inp e of None \<Rightarrow> 0 | Some v \<Rightarrow> if t < v then v else 0)"

definition candidate_point ::
  "'fld cv2 \<Rightarrow> (int \<times> int \<Rightarrow> int \<times> int) \<Rightarrow> bool \<Rightarrow> image \<Rightarrow> real \<times> real \<Rightarrow> image \<times> real \<Rightarrow> int \<times> int" where
  "candidate_point K conv nm inp origin e =
     (let max_pos = snd (snd (snd (minMaxLoc K (matchTemplate K (resize K inp (snd e)) (fst e)))));
          p = (real_of_int (fst max_pos)
                 + real_of_int (py_int (real (shape1 (fst e)) * 0.5)) + fst origin,
               real_of_int (snd max_pos)
                 + real_of_int (py_int (real (shape0 (fst e)) * 0.5)) + snd origin);
          q = (py_int (fst p * (1 / snd e)), py_int (snd p * (1 / snd e)))
      in if nm then conv q else q)"

fun recorded_points ::
  "'fld cv2 \<Rightarrow> (int \<times> int \<Rightarrow> int \<times> int) \<Rightarrow> bool \<Rightarrow> real \<Rightarrow> image \<Rightarrow> real \<times> real \<Rightarrow>
     (image \<times> real) list \<Rightarrow> (int \<times> int) list" where
  "recorded_points K conv nm t inp origin [] = []"
| "recorded_points K conv nm t inp origin (e # es) =
     (let origin' = (fst origin * snd e, snd origin * snd e) in
      (if exceeds K t inp e then candidate_point K conv nm inp origin' e else (0, 0))
        # recorded_points K conv nm t inp origin' es)"

definition best_match_of ::
  "'fld cv2 \<Rightarrow> (int \<times> int \<Rightarrow> int \<times> int) \<Rightarrow> bool \<Rightarrow> real \<Rightarrow> image \<Rightarrow> real \<times> real \<Rightarrow>
     string list \<Rightarrow> (image \<times> real) list \<Rightarrow> TemplateMatch" where
  "best_match_of K conv nm t inp origin ks es =
     (let rs = map (recorded K t inp) es;
          ps = recorded_points K conv nm t inp origin es;
          idx = py_index rs (py_max rs)
      in if 0 < py_max rs
         then \<lparr>name = Some (ks ! idx), score = py_max rs, position = Some (ps ! idx), valid = True\<rparr>
         else new_TemplateMatch)"




definition unit_scales :: "'fld finder \<Rightarrow> bool" where
  "unit_scales st = (\<forall>k t s. templates st k = Some (t, s) \<longrightarrow> s = 1)"





text \<open>
  A frame and an outcome with \<open>last_res\<close> forgotten, the value or exception an outcome
  stands for, and lines 115 to 123 applied to the outcome of the loop.
\<close>

definition erase :: "'fld frame \<Rightarrow> 'fld frame" where
  "erase fr = fr\<lparr>self := (self fr)\<lparr>last_res := None\<rparr>\<rparr>"

fun erase_out :: "'fld outcome \<Rightarrow> 'fld outcome" where
  "erase_out (Continue fr) = Continue (erase fr)"
| "erase_out (Return m fr) = Return m (erase fr)"
| "erase_out (Raise e fr) = Raise e (erase fr)"

fun outcome_result :: "'fld outcome \<Rightarrow> error + TemplateMatch" where
  "outcome_result (Continue fr) = Inl UnboundLocalError"
| "outcome_result (Return m fr) = Inr m"
| "outcome_result (Raise e fr) = Inl e"

fun finish :: "string list option \<Rightarrow> 'fld outcome \<Rightarrow> 'fld outcome" where
  "finish names (Continue fr) = select_best names fr"
| "finish names (Return m fr) = Return m fr"
| "finish names (Raise e fr) = Raise e fr"

section \<open>Unfolding \<open>search\<close>\<close>

lemma replicate_two: "replicate 2 x = [x, x]"
  by (simp add: numeral_2_eq_2)

lemmas stub_eval = replicate_two
  search_def search_frame_def resolve_threshold_def search_step_def select_best_def
  new_TemplateMatch_def name_at_def py_index_def py_int_def
  crop_def py_slice_def slice_bound_def shape0_def shape1_def
  stub_cv2_def stub_resize_def stub_score_def stub_config_def
  dot_def tile_def black_frame_def lit_frame_def wide_frame_def
  store_abc_def store_low_def store_scaled_def Let_def

lemma length4E:
  "length (r :: int list) = 4 \<Longrightarrow> \<exists>a b c d. r = [a, b, c, d]"
  by (cases r; simp; rename_tac x xs; case_tac xs; simp; rename_tac y ys; case_tac ys; simp;
      rename_tac z zs; case_tac zs; simp)

lemma search_frame_bad_roi:
  "\<not> (\<exists>a b c d. roi_bound inp_img roi_arg = [a, b, c, d]) \<Longrightarrow>
   search_frame K cfg conv st ref inp_img threshold roi_arg nm bm
     = (Inl ValueError, st, roi_bound inp_img roi_arg)"
  unfolding roi_bound_def
  by (simp add: search_frame_def Let_def split: list.splits)

lemma search_frame_bad_ref:
  "roi_bound inp_img roi_arg = [a, b, c, d] \<Longrightarrow>
   resolve_ref (templates st) ref bm = Inl err \<Longrightarrow>
   search_frame K cfg conv st ref inp_img threshold roi_arg nm bm
     = (Inl err, st, roi_bound inp_img roi_arg)"
  unfolding roi_bound_def
  by (simp add: search_frame_def Let_def)

lemma search_frame_run:
  "roi_bound inp_img roi_arg = [a, b, c, d] \<Longrightarrow>
   resolve_ref (templates st) ref bm = Inr (tmpls, scales, names, bm') \<Longrightarrow>
   search_frame K cfg conv st ref inp_img threshold roi_arg nm bm =
     (case search_loop K conv (resolve_threshold cfg threshold) nm bm' (crop inp_img a b c d)
             scales names 0 tmpls
             \<lparr>self = st, roi = [a, b, c, d],
              rx = real_of_int a, ry = real_of_int b, rw = real_of_int c, rh = real_of_int d,
              scores = replicate (py_len ref) 0,
              ref_points = replicate (py_len ref) (0, 0),
              template_match = None\<rparr> of
        Return m fr' \<Rightarrow> (Inr m, self fr', roi fr')
      | Raise e fr' \<Rightarrow> (Inl e, self fr', roi fr')
      | Continue fr' \<Rightarrow>
          (case select_best names fr' of
             Return m fr'' \<Rightarrow> (Inr m, self fr'', roi fr'')
           | Raise e fr'' \<Rightarrow> (Inl e, self fr'', roi fr'')
           | Continue fr'' \<Rightarrow> (Inl UnboundLocalError, self fr'', roi fr'')))"
  unfolding roi_bound_def
  by (simp add: search_frame_def Let_def)

section \<open>The empty reference list\<close>

text \<open>
  C2. The claim: \<open>search\<close> with an empty list as the reference returns an invalid match
  with score \<open>-1.0\<close> and does not raise. The code: with no template the loop body never
  runs, \<open>scores\<close> is the empty list, and \<open>max(scores)\<close> on line 115 raises \<open>ValueError\<close>,
  for every image, threshold, region and selection mode.
\<close>

theorem search_empty_list_raises:
  "search K cfg conv st (KeyList []) inp_img threshold roi_arg normalize_monitor best_match
     = Inl ValueError"
  by (simp add: search_def search_frame_def select_best_def Let_def
           split: list.splits option.splits)

section \<open>Unknown keys\<close>

lemma lookup_all_unknown:
  "find (\<lambda>k. m k = None) ks = Some k \<Longrightarrow> lookup_all m ks = Inl (KeyError k)"
  by (induction ks) (auto split: if_splits option.splits)

lemma resolve_ref_unknown:
  "find (\<lambda>k. m k = None) (ref_keys ref) = Some k \<Longrightarrow> resolve_ref m ref b = Inl (KeyError k)"
  by (cases ref) (auto simp: lookup_all_unknown split: if_splits option.splits)

lemma roi_well_formed_bound:
  "roi_well_formed roi_arg \<Longrightarrow> \<exists>a b c d. roi_bound inp_img roi_arg = [a, b, c, d]"
  using length4E by (cases roi_arg) (auto simp: roi_well_formed_def roi_bound_def)

text \<open>
  C8. When the reference is, or contains, a key that is not in the template store, the
  call raises and returns no match. With \<open>roi\<close> in its documented format the exception is
  \<open>KeyError\<close> for the first such key, raised before any candidate is evaluated, and the
  instance state is left as it was. (A list \<open>roi\<close> of another length makes the unpacking
  on line 65 raise \<open>ValueError\<close> before the lookup.)
\<close>

theorem search_unknown_key_raises:
  assumes "find (\<lambda>k. templates st k = None) (ref_keys ref) = Some k"
  shows "(\<exists>e. search K cfg conv st ref inp_img threshold roi_arg normalize_monitor best_match
                = Inl e)
         \<and> (roi_well_formed roi_arg \<longrightarrow>
              search_frame K cfg conv st ref inp_img threshold roi_arg normalize_monitor best_match
                = (Inl (KeyError k), st, roi_bound inp_img roi_arg))"
proof (cases "\<exists>a b c d. roi_bound inp_img roi_arg = [a, b, c, d]")
  case False
  then have "\<not> roi_well_formed roi_arg"
    using roi_well_formed_bound by blast
  with False show ?thesis
    by (simp add: search_def search_frame_bad_roi)
next
  case True
  then obtain a b c d where "roi_bound inp_img roi_arg = [a, b, c, d]"
    by blast
  then have "search_frame K cfg conv st ref inp_img threshold roi_arg normalize_monitor best_match
               = (Inl (KeyError k), st, roi_bound inp_img roi_arg)"
    using resolve_ref_unknown[OF assms] by (rule search_frame_bad_ref)
  then show ?thesis
    by (simp add: search_def)
qed

theorem search_unknown_key_raises_witness:
  "find (\<lambda>k. templates store_abc k = None) (ref_keys (KeyList [''A'', ''D''])) = Some ''D''
   \<and> roi_well_formed None
   \<and> search stub_cv2 stub_config id store_abc (KeyList [''A'', ''D'']) black_frame
        (Some 0.3) None False True
       = Inl (KeyError ''D'')
   \<and> search_frame stub_cv2 stub_config id store_abc (KeyList [''A'', ''D'']) black_frame
        (Some 0.3) None False True
       = (Inl (KeyError ''D''), store_abc, [0, 0, 2, 2])"
proof -
  have h1: "find (\<lambda>k. templates store_abc k = None) (ref_keys (KeyList [''A'', ''D''])) = Some ''D''"
    by (simp add: store_abc_def)
  have h2: "roi_well_formed None"
    by (simp add: roi_well_formed_def)
  have b: "roi_bound black_frame None = [0, 0, 2, 2]"
    by (simp add: roi_bound_def black_frame_def shape0_def shape1_def)
  from search_unknown_key_raises[OF h1, of stub_cv2 stub_config id black_frame "Some 0.3" None False True]
  have "search_frame stub_cv2 stub_config id store_abc (KeyList [''A'', ''D'']) black_frame
        (Some 0.3) None False True
       = (Inl (KeyError ''D''), store_abc, [0, 0, 2, 2])"
    using h2 b by simp
  then show ?thesis using h1 h2 by (simp add: search_def)
qed

section \<open>Selection mode of a single reference\<close>

text \<open>
  C9. For a single key and for an image used as the template, lines 72 and 80 set
  \<open>best_match\<close> to \<open>False\<close>: the outcome of the call (result, instance state) is the same
  whichever value the caller passes.
\<close>

theorem single_ref_forces_first_match:
  "search_frame K cfg conv st (Key k) inp_img threshold roi_arg normalize_monitor True
     = search_frame K cfg conv st (Key k) inp_img threshold roi_arg normalize_monitor False
   \<and> search_frame K cfg conv st (RawImage im) inp_img threshold roi_arg normalize_monitor True
     = search_frame K cfg conv st (RawImage im) inp_img threshold roi_arg normalize_monitor False"
  by (simp add: search_frame_def Let_def split: list.splits option.splits)

section \<open>What \<open>search\<close> leaves unchanged\<close>

lemma search_step_frame:
  "templates (self (frame_of (search_step K conv t nm bm inp scales names count template fr)))
     = templates (self fr)
   \<and> roi (frame_of (search_step K conv t nm bm inp scales names count template fr)) = roi fr"
  by (simp add: search_step_def Let_def)

lemma search_loop_frame:
  "templates (self (frame_of (search_loop K conv t nm bm inp scales names count tmpls fr)))
     = templates (self fr)
   \<and> roi (frame_of (search_loop K conv t nm bm inp scales names count tmpls fr)) = roi fr"
proof (induction tmpls arbitrary: count fr)
  case Nil
  show ?case by simp
next
  case (Cons template rest)
  note step = search_step_frame[of K conv t nm bm inp scales names count template fr]
  show ?case
  proof (cases "search_step K conv t nm bm inp scales names count template fr")
    case (Continue fr')
    with step show ?thesis using Cons.IH[of "Suc count" fr'] by simp
  next
    case (Return m fr')
    with step show ?thesis by simp
  next
    case (Raise e fr')
    with step show ?thesis by simp
  qed
qed

lemma select_best_frame:
  "templates (self (frame_of (select_best names fr))) = templates (self fr)
   \<and> roi (frame_of (select_best names fr)) = roi fr"
  by (simp add: select_best_def Let_def split: option.splits)

lemma search_frame_keeps:
  "templates (fst (snd (search_frame K cfg conv st ref inp_img threshold roi_arg nm bm)))
     = templates st
   \<and> snd (snd (search_frame K cfg conv st ref inp_img threshold roi_arg nm bm))
       = roi_bound inp_img roi_arg"
proof (cases "\<exists>a b c d. roi_bound inp_img roi_arg = [a, b, c, d]")
  case False
  then show ?thesis by (simp add: search_frame_bad_roi)
next
  case True
  then obtain a b c d where r: "roi_bound inp_img roi_arg = [a, b, c, d]" by blast
  show ?thesis
  proof (cases "resolve_ref (templates st) ref bm")
    case (Inl err)
    with r show ?thesis by (simp add: search_frame_bad_ref)
  next
    case (Inr q)
    obtain tmpls scales names bm' where q: "q = (tmpls, scales, names, bm')"
      by (cases q) auto
    define out where "out = search_loop K conv (resolve_threshold cfg threshold) nm bm'
        (crop inp_img a b c d) scales names 0 tmpls
        \<lparr>self = st, roi = [a, b, c, d],
         rx = real_of_int a, ry = real_of_int b, rw = real_of_int c, rh = real_of_int d,
         scores = replicate (py_len ref) 0,
         ref_points = replicate (py_len ref) (0, 0),
         template_match = None\<rparr>"
    have L: "templates (self (frame_of out)) = templates st \<and> roi (frame_of out) = [a, b, c, d]"
      unfolding out_def
      by (simp add: search_loop_frame)
    have E: "search_frame K cfg conv st ref inp_img threshold roi_arg nm bm =
         (case out of
            Return m fr' \<Rightarrow> (Inr m, self fr', roi fr')
          | Raise e fr' \<Rightarrow> (Inl e, self fr', roi fr')
          | Continue fr' \<Rightarrow>
              (case select_best names fr' of
                 Return m fr'' \<Rightarrow> (Inr m, self fr'', roi fr'')
               | Raise e fr'' \<Rightarrow> (Inl e, self fr'', roi fr'')
               | Continue fr'' \<Rightarrow> (Inl UnboundLocalError, self fr'', roi fr'')))"
      unfolding out_def using search_frame_run[OF r, of st ref bm tmpls scales names bm'] Inr q
      by simp
    show ?thesis
    proof (cases out)
      case (Continue fr')
      with L have "templates (self (frame_of (select_best names fr'))) = templates st
                 \<and> roi (frame_of (select_best names fr')) = [a, b, c, d]"
        by (simp add: select_best_frame)
      with Continue E r show ?thesis
        by (cases "select_best names fr'") auto
    next
      case (Return m fr')
      with L E r show ?thesis by simp
    next
      case (Raise e fr')
      with L E r show ?thesis by simp
    qed
  qed
qed

text \<open>
  C10. Whatever a call of \<open>search\<close> does (return or raise), the template store of the
  instance is the one it started with, and the list passed as \<open>roi\<close> holds the same
  numbers: the loop scales the unpacked locals \<open>rx\<close>, \<open>ry\<close>, \<open>rw\<close>, \<open>rh\<close> only. The instance
  state has no field besides the store and \<open>last_res\<close>.
\<close>

theorem search_frame_condition:
  "(\<exists>lr. fst (snd (search_frame K cfg conv st ref inp_img threshold (Some r) nm bm))
            = st\<lparr>last_res := lr\<rparr>)
   \<and> snd (snd (search_frame K cfg conv st ref inp_img threshold (Some r) nm bm)) = r
   \<and> (\<exists>lr. fst (snd (search_frame K cfg conv st ref inp_img threshold None nm bm))
            = st\<lparr>last_res := lr\<rparr>)"
proof -
  have eq: "\<And>st' :: 'a finder. templates st' = templates st \<Longrightarrow> st' = st\<lparr>last_res := last_res st'\<rparr>"
    by simp
  have a: "\<And>ro. \<exists>lr. fst (snd (search_frame K cfg conv st ref inp_img threshold ro nm bm))
                       = st\<lparr>last_res := lr\<rparr>"
    using eq search_frame_keeps by blast
  show ?thesis
    using a search_frame_keeps[of K cfg conv st ref inp_img threshold "Some r" nm bm]
    by (simp add: roi_bound_def)
qed

section \<open>Best-match selection\<close>

text \<open>
  C3. The claim: in best-match mode, for every threshold in \<open>[-1, 1]\<close>, a candidate whose
  score exceeds the threshold makes the result valid. The code: line 115 tests
  \<open>max(scores) > 0\<close>, where 0 is the initial entry of \<open>scores\<close>. With threshold \<open>- 0.5\<close>
  and one candidate of score \<open>- 0.2\<close> (above the threshold), best-match mode returns the
  invalid default; first-match mode, on the same input, returns the candidate as valid.
  (For a threshold from 0 on, the result is valid exactly when a candidate exceeds the
  threshold, and then carries the earliest candidate of maximal score: lemmas
  \<open>best_match_result\<close>, \<open>best_match_valid_iff\<close> and \<open>best_match_maximal\<close> below.)
\<close>

theorem best_match_negative_threshold:
  "fst (snd (minMaxLoc stub_cv2
        (matchTemplate stub_cv2 (resize stub_cv2 black_frame 1) (dot 80)))) = - 0.2
   \<and> search stub_cv2 stub_config id store_low (KeyList [''N'']) black_frame
         (Some (- 0.5)) None False True
       = Inr \<lparr>name = None, score = - 1, position = None, valid = False\<rparr>
   \<and> search stub_cv2 stub_config id store_low (KeyList [''N'']) black_frame
         (Some (- 0.5)) None False False
       = Inr \<lparr>name = Some ''N'', score = - 0.2, position = Some (0, 0), valid = True\<rparr>"
  by (simp add: stub_eval)

text \<open>
  C6. The claim: in best-match mode, of several candidates above the threshold with equal
  maximal score, the earliest is returned. The code: for the scores \<open>[0.4, 0.9, 0.9]\<close> and
  threshold \<open>0.3\<close> of the claim's example it is (lemma \<open>tie_break_example\<close> below); for two
  candidates of score \<open>- 0.2\<close> and threshold \<open>- 0.5\<close>, both above the threshold and tied,
  the test \<open>max(scores) > 0\<close> fails and no candidate is returned. (Whenever the result
  is valid, it is the earliest candidate of maximal score: lemma \<open>best_match_maximal\<close>
  below.)
\<close>

theorem tie_break_negative_scores:
  "search stub_cv2 stub_config id store_low (KeyList [''M'', ''N'']) black_frame
         (Some (- 0.5)) None False True
       = Inr \<lparr>name = None, score = - 1, position = None, valid = False\<rparr>
   \<and> search stub_cv2 stub_config id store_low (KeyList [''M'']) black_frame
         (Some (- 0.5)) None False False
       = Inr \<lparr>name = Some ''M'', score = - 0.2, position = Some (0, 0), valid = True\<rparr>
   \<and> search stub_cv2 stub_config id store_low (KeyList [''N'']) black_frame
         (Some (- 0.5)) None False False
       = Inr \<lparr>name = Some ''N'', score = - 0.2, position = Some (0, 0), valid = True\<rparr>"
  by (simp add: stub_eval)

lemma tie_break_example:
  "search stub_cv2 stub_config id store_abc (KeyList [''A'', ''B'', ''C'']) black_frame
         (Some 0.3) None False True
       = Inr \<lparr>name = Some ''B'', score = 0.9, position = Some (0, 0), valid = True\<rparr>
   \<and> search stub_cv2 stub_config id store_abc (KeyList [''A'']) black_frame
         (Some 0.3) None False False
       = Inr \<lparr>name = Some ''A'', score = 0.4, position = Some (0, 0), valid = True\<rparr>
   \<and> search stub_cv2 stub_config id store_abc (KeyList [''C'']) black_frame
         (Some 0.3) None False False
       = Inr \<lparr>name = Some ''C'', score = 0.9, position = Some (0, 0), valid = True\<rparr>"
  by (simp add: stub_eval)

section \<open>Positions under scaling\<close>


section \<open>The invariant of a valid result\<close>

lemma py_max_in_set: "xs \<noteq> [] \<Longrightarrow> py_max xs \<in> set xs"
  by (induction xs rule: py_max.induct) (auto simp: max_def)

lemma py_index_nth: "v \<in> set xs \<Longrightarrow> py_index xs v < length xs \<and> xs ! py_index xs v = v"
proof -
  assume v: "v \<in> set xs"
  have l: "length (takeWhile (\<lambda>x. x \<noteq> v) xs) < length xs"
    using v by (induction xs) auto
  from nth_length_takeWhile[OF l] l show ?thesis
    by (simp add: py_index_def)
qed

lemma search_step_Continue_inv:
  "search_step K conv t nm bm inp scales names count template fr = Continue fr' \<Longrightarrow>
   scores_inv t fr \<Longrightarrow> scores_inv t fr'"
  by (auto simp: search_step_def Let_def scores_inv_def new_TemplateMatch_def
           split: if_splits dest!: set_update_subset_insert[THEN subsetD])

lemma search_step_Return_valid:
  "search_step K conv t nm bm inp scales names count template fr = Return m fr' \<Longrightarrow>
   valid m \<and> position m \<noteq> None \<and> t < score m"
  by (auto simp: search_step_def Let_def split: if_splits)

lemma search_loop_Continue_inv:
  "search_loop K conv t nm bm inp scales names count tmpls fr = Continue fr' \<Longrightarrow>
   scores_inv t fr \<Longrightarrow> scores_inv t fr'"
proof (induction tmpls arbitrary: count fr)
  case Nil
  then show ?case by simp
next
  case (Cons template rest)
  then show ?case
    by (auto split: outcome.splits dest: search_step_Continue_inv)
qed

lemma search_loop_Return_valid:
  "search_loop K conv t nm bm inp scales names count tmpls fr = Return m fr' \<Longrightarrow>
   valid m \<and> position m \<noteq> None \<and> t < score m"
proof (induction tmpls arbitrary: count fr)
  case Nil
  then show ?case by simp
next
  case (Cons template rest)
  then show ?case
    by (auto split: outcome.splits dest: search_step_Return_valid)
qed

lemma select_best_Return_valid:
  assumes "select_best names fr = Return m fr'" and "scores_inv t fr" and "valid m"
  shows "position m \<noteq> None \<and> t < score m"
proof (cases "scores fr \<noteq> [] \<and> 0 < py_max (scores fr)")
  case False
  with assms show ?thesis
    by (auto simp: select_best_def Let_def scores_inv_def split: if_splits option.splits)
next
  case True
  define v where "v = py_max (scores fr)"
  have vin: "v \<in> set (scores fr)" using True py_max_in_set by (simp add: v_def)
  then have nth: "scores fr ! py_index (scores fr) v = v" using py_index_nth by blast
  have "v = 0 \<or> t < v" using vin assms(2) by (simp add: scores_inv_def)
  with True have tv: "t < v" by (simp add: v_def)
  from assms(1) True nth tv show ?thesis
    by (auto simp: select_best_def Let_def v_def split: if_splits option.splits)
qed

text \<open>
  C5. A match returned by \<open>search\<close> that is marked valid has a position, and its score is
  strictly above the threshold of that search; so, for a threshold in the kernel's range
  (not below \<open>-1\<close>), the score is not the sentinel \<open>-1\<close> of an unevaluated match.
\<close>

theorem valid_match_invariant:
  assumes "search K cfg conv st ref inp_img threshold roi_arg normalize_monitor best_match = Inr m"
    and "valid m"
  shows "position m \<noteq> None
         \<and> resolve_threshold cfg threshold < score m
         \<and> (- 1 \<le> resolve_threshold cfg threshold \<longrightarrow> score m \<noteq> - 1)"
proof -
  define t where "t = resolve_threshold cfg threshold"
  have "position m \<noteq> None \<and> t < score m"
  proof (cases "\<exists>a b c d. roi_bound inp_img roi_arg = [a, b, c, d]")
    case False
    with assms(1) show ?thesis by (simp add: search_def search_frame_bad_roi)
  next
    case True
    then obtain a b c d where r: "roi_bound inp_img roi_arg = [a, b, c, d]" by blast
    show ?thesis
    proof (cases "resolve_ref (templates st) ref best_match")
      case (Inl err)
      with r assms(1) show ?thesis by (simp add: search_def search_frame_bad_ref)
    next
      case (Inr q)
      obtain tmpls scales names bm' where q: "q = (tmpls, scales, names, bm')"
        by (cases q) auto
      define fr where "fr = \<lparr>self = st, roi = [a, b, c, d],
         rx = real_of_int a, ry = real_of_int b, rw = real_of_int c, rh = real_of_int d,
         scores = replicate (py_len ref) (0::real),
         ref_points = replicate (py_len ref) (0::int, 0::int),
         template_match = None\<rparr>"
      define out where "out = search_loop K conv t normalize_monitor bm'
        (crop inp_img a b c d) scales names 0 tmpls fr"
      have inv0: "scores_inv t fr" by (simp add: fr_def scores_inv_def)
      have E: "search K cfg conv st ref inp_img threshold roi_arg normalize_monitor best_match =
         fst (case out of
            Return m fr' \<Rightarrow> (Inr m, self fr', roi fr')
          | Raise e fr' \<Rightarrow> (Inl e, self fr', roi fr')
          | Continue fr' \<Rightarrow>
              (case select_best names fr' of
                 Return m fr'' \<Rightarrow> (Inr m, self fr'', roi fr'')
               | Raise e fr'' \<Rightarrow> (Inl e, self fr'', roi fr'')
               | Continue fr'' \<Rightarrow> (Inl UnboundLocalError, self fr'', roi fr'')))"
        unfolding out_def fr_def t_def search_def
        using search_frame_run[OF r, of st ref best_match tmpls scales names bm'] Inr q
        by simp
      show ?thesis
      proof (cases out)
        case (Continue fr')
        then have inv: "scores_inv t fr'"
          using search_loop_Continue_inv inv0 unfolding out_def by blast
        from Continue E assms(1) have "\<exists>fr''. select_best names fr' = Return m fr''"
          by (cases "select_best names fr'") auto
        then show ?thesis using select_best_Return_valid inv assms(2) by blast
      next
        case (Return m' fr')
        with E assms(1) have "m' = m" by simp
        with Return show ?thesis using search_loop_Return_valid unfolding out_def by blast
      next
        case (Raise e fr')
        with E assms(1) show ?thesis by simp
      qed
    qed
  qed
  then show ?thesis unfolding t_def by auto
qed

theorem valid_match_invariant_witness:
  "search stub_cv2 stub_config id store_abc (KeyList [''A'', ''B'', ''C'']) black_frame
       (Some 0.3) None False True
     = Inr \<lparr>name = Some ''B'', score = 0.9, position = Some (0, 0), valid = True\<rparr>
   \<and> valid \<lparr>name = Some ''B'', score = 0.9, position = Some (0, 0), valid = True\<rparr>
   \<and> position \<lparr>name = Some ''B'', score = 0.9, position = Some (0, 0), valid = True\<rparr> \<noteq> None
   \<and> resolve_threshold stub_config (Some 0.3)
       < score \<lparr>name = Some ''B'', score = 0.9, position = Some (0, 0), valid = True\<rparr>
   \<and> - 1 \<le> resolve_threshold stub_config (Some 0.3)
   \<and> score \<lparr>name = Some ''B'', score = 0.9, position = Some (0, 0), valid = True\<rparr> \<noteq> - 1"
proof -
  have h1: "search stub_cv2 stub_config id store_abc (KeyList [''A'', ''B'', ''C'']) black_frame
       (Some 0.3) None False True
     = Inr \<lparr>name = Some ''B'', score = 0.9, position = Some (0, 0), valid = True\<rparr>"
    by (simp add: stub_eval)
  have h2: "valid \<lparr>name = Some ''B'', score = 0.9, position = Some (0, 0), valid = True\<rparr>"
    by simp
  have h3: "- 1 \<le> resolve_threshold stub_config (Some 0.3)"
    by (simp add: resolve_threshold_def)
  from valid_match_invariant[OF h1 h2] h1 h2 h3 show ?thesis
    by blast
qed

section \<open>The result of \<open>search\<close> does not depend on \<open>last_res\<close>\<close>

lemma outcome_result_erase: "outcome_result (erase_out out) = outcome_result out"
  by (cases out) auto

lemma erase_idem: "erase (erase fr) = erase fr"
  by (simp add: erase_def)

lemma search_step_erase:
  "erase_out (search_step K conv t nm bm inp scales names count template (erase fr))
     = erase_out (search_step K conv t nm bm inp scales names count template fr)"
  by (simp add: search_step_def erase_def Let_def)

lemma erase_out_eq_cases:
  "erase_out a = erase_out b \<Longrightarrow>
     (\<exists>f g. a = Continue f \<and> b = Continue g \<and> erase f = erase g)
   \<or> (\<exists>m f g. a = Return m f \<and> b = Return m g \<and> erase f = erase g)
   \<or> (\<exists>e f g. a = Raise e f \<and> b = Raise e g \<and> erase f = erase g)"
  by (cases a; cases b; simp)

lemma search_loop_erase:
  "erase fr1 = erase fr2 \<Longrightarrow>
   erase_out (search_loop K conv t nm bm inp scales names count tmpls fr1)
     = erase_out (search_loop K conv t nm bm inp scales names count tmpls fr2)"
proof (induction tmpls arbitrary: count fr1 fr2)
  case Nil
  then show ?case by simp
next
  case (Cons template rest)
  have "erase_out (search_step K conv t nm bm inp scales names count template fr1)
        = erase_out (search_step K conv t nm bm inp scales names count template fr2)"
    using search_step_erase[of K conv t nm bm inp scales names count template fr1]
          search_step_erase[of K conv t nm bm inp scales names count template fr2]
          Cons.prems by simp
  from erase_out_eq_cases[OF this] consider
      (c) f g where "search_step K conv t nm bm inp scales names count template fr1 = Continue f"
                    "search_step K conv t nm bm inp scales names count template fr2 = Continue g"
                    "erase f = erase g"
    | (r) m f g where "search_step K conv t nm bm inp scales names count template fr1 = Return m f"
                    "search_step K conv t nm bm inp scales names count template fr2 = Return m g"
                    "erase f = erase g"
    | (x) e f g where "search_step K conv t nm bm inp scales names count template fr1 = Raise e f"
                    "search_step K conv t nm bm inp scales names count template fr2 = Raise e g"
                    "erase f = erase g"
    by blast
  then show ?case
  proof cases
    case c
    from Cons.IH[OF c(3), of "Suc count"] c(1,2) show ?thesis by simp
  next
    case r
    then show ?thesis by simp
  next
    case x
    then show ?thesis by simp
  qed
qed

lemma select_best_erase_self:
  "erase_out (select_best names (erase fr)) = erase_out (select_best names fr)"
  by (simp add: select_best_def erase_def Let_def split: option.splits)

lemma select_best_erase:
  "erase fr1 = erase fr2 \<Longrightarrow>
   erase_out (select_best names fr1) = erase_out (select_best names fr2)"
  using select_best_erase_self[of names fr1] select_best_erase_self[of names fr2] by simp

lemma finish_erase:
  "erase_out a = erase_out b \<Longrightarrow> erase_out (finish names a) = erase_out (finish names b)"
proof -
  assume "erase_out a = erase_out b"
  from erase_out_eq_cases[OF this] consider
      (c) f g where "a = Continue f" "b = Continue g" "erase f = erase g"
    | (r) m f g where "a = Return m f" "b = Return m g" "erase f = erase g"
    | (x) e f g where "a = Raise e f" "b = Raise e g" "erase f = erase g"
    by blast
  then show ?thesis
  proof cases
    case c
    then show ?thesis using select_best_erase[OF c(3), of names] by simp
  next
    case r
    then show ?thesis by simp
  next
    case x
    then show ?thesis by simp
  qed
qed

lemma search_frame_result:
  "roi_bound inp_img roi_arg = [a, b, c, d] \<Longrightarrow>
   resolve_ref (templates st) ref bm = Inr (tmpls, scales, names, bm') \<Longrightarrow>
   fst (search_frame K cfg conv st ref inp_img threshold roi_arg nm bm) =
     outcome_result
       (finish names
          (search_loop K conv (resolve_threshold cfg threshold) nm bm' (crop inp_img a b c d)
             scales names 0 tmpls
             \<lparr>self = st, roi = [a, b, c, d],
              rx = real_of_int a, ry = real_of_int b, rw = real_of_int c, rh = real_of_int d,
              scores = replicate (py_len ref) 0,
              ref_points = replicate (py_len ref) (0, 0),
              template_match = None\<rparr>))"
  by (simp add: search_frame_run split: outcome.splits)

lemma search_ignores_last_res:
  assumes "templates st' = templates st"
  shows "search K cfg conv st' ref inp_img threshold roi_arg nm bm
       = search K cfg conv st ref inp_img threshold roi_arg nm bm"
proof (cases "\<exists>a b c d. roi_bound inp_img roi_arg = [a, b, c, d]")
  case False
  then show ?thesis by (simp add: search_def search_frame_bad_roi)
next
  case True
  then obtain a b c d where r: "roi_bound inp_img roi_arg = [a, b, c, d]" by blast
  show ?thesis
  proof (cases "resolve_ref (templates st) ref bm")
    case (Inl err)
    with r assms show ?thesis by (simp add: search_def search_frame_bad_ref)
  next
    case (Inr q)
    obtain tmpls scales names bm' where q: "q = (tmpls, scales, names, bm')"
      by (cases q) auto
    define fr where "fr = (\<lambda>s :: 'a finder. \<lparr>self = s, roi = [a, b, c, d],
              rx = real_of_int a, ry = real_of_int b, rw = real_of_int c, rh = real_of_int d,
              scores = replicate (py_len ref) (0::real),
              ref_points = replicate (py_len ref) (0::int, 0::int),
              template_match = None\<rparr>)"
    define run where "run = (\<lambda>f. search_loop K conv (resolve_threshold cfg threshold) nm bm'
              (crop inp_img a b c d) scales names 0 tmpls f)"
    have e0: "erase (fr st') = erase (fr st)"
      using assms by (simp add: fr_def erase_def)
    have e1: "erase_out (run (fr st')) = erase_out (run (fr st))"
      unfolding run_def by (rule search_loop_erase[OF e0])
    have e2: "erase_out (finish names (run (fr st'))) = erase_out (finish names (run (fr st)))"
      by (rule finish_erase[OF e1])
    have e3: "outcome_result (finish names (run (fr st'))) = outcome_result (finish names (run (fr st)))"
      using outcome_result_erase[of "finish names (run (fr st'))"]
            outcome_result_erase[of "finish names (run (fr st))"] e2 by simp
    have a1: "resolve_ref (templates st) ref bm = Inr (tmpls, scales, names, bm')"
      using Inr q by simp
    have a2: "resolve_ref (templates st') ref bm = Inr (tmpls, scales, names, bm')"
      using a1 assms by simp
    have s1: "search K cfg conv st ref inp_img threshold roi_arg nm bm
          = outcome_result (finish names (run (fr st)))"
      unfolding search_def run_def fr_def
      by (rule search_frame_result[OF r a1])
    have s2: "search K cfg conv st' ref inp_img threshold roi_arg nm bm
          = outcome_result (finish names (run (fr st')))"
      unfolding search_def run_def fr_def
      by (rule search_frame_result[OF r a2])
    show ?thesis using s1 s2 e3 by simp
  qed
qed

section \<open>The polling loop: a valid match\<close>

text \<open>
  C1, as stated: on every iteration on which \<open>search\<close> gives a valid result the loop
  returns that result, whether or not the loading check is active. It fails: line 152
  guards the test of \<open>valid\<close> as well as the test of the timeout. In an environment whose
  first capture is black on the left (and matches with score \<open>0.9\<close>) and whose second is
  lit (and matches with score \<open>0.8\<close>), the loop does not return the valid result of the
  first iteration; it returns that of the second.
\<close>

theorem found_not_returned_while_suppressed:
  "search stub_cv2 stub_config id store_abc (KeyList [''B'']) (grab world_black_then_lit 0)
       (Some 0.68) None False False
     = Inr \<lparr>name = Some ''B'', score = 0.9, position = Some (0, 0), valid = True\<rparr>
   \<and> search_and_wait stub_cv2 stub_config id world_black_then_lit store_abc (WaitKey ''B'')
       None (Some 0) None False True
     = Some (Inr \<lparr>name = Some ''B'', score = 0.8, position = Some (0, 0), valid = True\<rparr>,
             store_abc\<lparr>last_res := Some 0.8\<rparr>, [])"
  by (simp add: search_and_wait_def wait_loop.simps world_black_then_lit_def
        is_loading_black_roi_def stub_eval)

text \<open>
  C1, amended: on every iteration on which \<open>search\<close> gives a valid result, and on which
  the loading check is not active or the reference list contains \<open>LOADING\<close>, the loop
  returns that result at once, whatever the timeout and the clock. On an iteration on
  which the loading check is active and \<open>LOADING\<close> is not in the reference list, the loop
  tests neither the validity of the result nor the timeout: it goes on with the next
  iteration, whatever the result, the timeout and the clock.
\<close>

theorem found_returned_only_unsuppressed:
  assumes "search_frame K cfg conv st (KeyList ref) (grab w i) (Some threshold) roi_arg False best_match
             = (Inr m, st', r)"
  shows "(valid m \<and> (\<not> is_loading_black_roi cfg (grab w i) \<or> ''LOADING'' \<in> set ref) \<longrightarrow>
            wait_loop K cfg conv w ref roi_arg time_out threshold best_match take_ss i st
              = Some (Inr m, st', []))
         \<and> (is_loading_black_roi cfg (grab w i) \<and> ''LOADING'' \<notin> set ref \<longrightarrow>
            wait_loop K cfg conv w ref roi_arg time_out threshold best_match take_ss i st
              = wait_loop K cfg conv w ref roi_arg time_out threshold best_match take_ss (Suc i) st')"
proof -
  have returned: "valid m \<and> (\<not> is_loading_black_roi cfg (grab w i) \<or> ''LOADING'' \<in> set ref) \<longrightarrow>
            wait_loop K cfg conv w ref roi_arg time_out threshold best_match take_ss i st
              = Some (Inr m, st', [])"
    using assms by (subst wait_loop.simps) (simp add: Let_def)
  have skipped: "is_loading_black_roi cfg (grab w i) \<and> ''LOADING'' \<notin> set ref \<longrightarrow>
            wait_loop K cfg conv w ref roi_arg time_out threshold best_match take_ss i st
              = wait_loop K cfg conv w ref roi_arg time_out threshold best_match take_ss (Suc i) st'"
    using assms by (subst wait_loop.simps) (simp add: Let_def)
  from returned skipped show ?thesis by (rule conjI)
qed


theorem found_returned_only_unsuppressed_witness:
  "search_frame stub_cv2 stub_config id store_abc (KeyList [''B'']) (grab world_black_then_lit 0)
       (Some 0.68) None False False
     = (Inr \<lparr>name = Some ''B'', score = 0.9, position = Some (0, 0), valid = True\<rparr>,
        store_abc\<lparr>last_res := Some 0.9\<rparr>, [0, 0, 2, 2])
   \<and> is_loading_black_roi stub_config (grab world_black_then_lit 0)
   \<and> ''LOADING'' \<notin> set [''B'']
   \<and> wait_loop stub_cv2 stub_config id world_black_then_lit [''B''] None (Some 0) 0.68 False True 0
        store_abc
     = wait_loop stub_cv2 stub_config id world_black_then_lit [''B''] None (Some 0) 0.68 False True
        (Suc 0) (store_abc\<lparr>last_res := Some 0.9\<rparr>)
   \<and> search_frame stub_cv2 stub_config id (store_abc\<lparr>last_res := Some 0.9\<rparr>) (KeyList [''B''])
        (grab world_black_then_lit (Suc 0)) (Some 0.68) None False False
     = (Inr \<lparr>name = Some ''B'', score = 0.8, position = Some (0, 0), valid = True\<rparr>,
        store_abc\<lparr>last_res := Some 0.8\<rparr>, [0, 0, 2, 2])
   \<and> valid \<lparr>name = Some ''B'', score = 0.8, position = Some (0, 0), valid = True\<rparr>
   \<and> \<not> is_loading_black_roi stub_config (grab world_black_then_lit (Suc 0))
   \<and> wait_loop stub_cv2 stub_config id world_black_then_lit [''B''] None (Some 0) 0.68 False True
        (Suc 0) (store_abc\<lparr>last_res := Some 0.9\<rparr>)
     = Some (Inr \<lparr>name = Some ''B'', score = 0.8, position = Some (0, 0), valid = True\<rparr>,
             store_abc\<lparr>last_res := Some 0.8\<rparr>, [])"
proof -
  have a1: "search_frame stub_cv2 stub_config id store_abc (KeyList [''B'']) (grab world_black_then_lit 0)
       (Some 0.68) None False False
     = (Inr \<lparr>name = Some ''B'', score = 0.9, position = Some (0, 0), valid = True\<rparr>,
        store_abc\<lparr>last_res := Some 0.9\<rparr>, [0, 0, 2, 2])"
    by (simp add: world_black_then_lit_def stub_eval)
  have a2: "is_loading_black_roi stub_config (grab world_black_then_lit 0)"
    by (simp add: is_loading_black_roi_def world_black_then_lit_def stub_eval)
  have a3: "''LOADING'' \<notin> set [''B'']"
    by simp
  have b1: "search_frame stub_cv2 stub_config id (store_abc\<lparr>last_res := Some 0.9\<rparr>) (KeyList [''B''])
        (grab world_black_then_lit (Suc 0)) (Some 0.68) None False False
     = (Inr \<lparr>name = Some ''B'', score = 0.8, position = Some (0, 0), valid = True\<rparr>,
        store_abc\<lparr>last_res := Some 0.8\<rparr>, [0, 0, 2, 2])"
    by (simp add: world_black_then_lit_def stub_eval)
  have b2: "valid \<lparr>name = Some ''B'', score = 0.8, position = Some (0, 0), valid = True\<rparr>"
    by simp
  have b3: "\<not> is_loading_black_roi stub_config (grab world_black_then_lit (Suc 0))"
    by (simp add: is_loading_black_roi_def world_black_then_lit_def stub_eval)
  from found_returned_only_unsuppressed[OF a1, of "Some 0" True] a2 a3
  have c1: "wait_loop stub_cv2 stub_config id world_black_then_lit [''B''] None (Some 0) 0.68 False True 0
        store_abc
     = wait_loop stub_cv2 stub_config id world_black_then_lit [''B''] None (Some 0) 0.68 False True
        (Suc 0) (store_abc\<lparr>last_res := Some 0.9\<rparr>)"
    by blast
  from found_returned_only_unsuppressed[OF b1, of "Some 0" True] b2 b3
  have c2: "wait_loop stub_cv2 stub_config id world_black_then_lit [''B''] None (Some 0) 0.68 False True
        (Suc 0) (store_abc\<lparr>last_res := Some 0.9\<rparr>)
     = Some (Inr \<lparr>name = Some ''B'', score = 0.8, position = Some (0, 0), valid = True\<rparr>,
             store_abc\<lparr>last_res := Some 0.8\<rparr>, [])"
    by blast
  from a1 a2 a3 b1 b2 b3 c1 c2 show ?thesis by blast
qed


section \<open>The polling loop: timeout 0\<close>

lemma search_low_black:
  "templates st = templates store_low \<Longrightarrow> - 0.2 \<le> th \<Longrightarrow>
   search_frame stub_cv2 stub_config id st (KeyList [''N'']) black_frame (Some th) None False False
     = (Inr new_TemplateMatch, st\<lparr>last_res := Some (- 0.2)\<rparr>, [0, 0, 2, 2])"
  by (simp add: stub_eval)

lemma black_frame_is_loading: "is_loading_black_roi stub_config black_frame"
  by (simp add: is_loading_black_roi_def stub_eval)

lemma black_loop_aux:
  "wait_loop K cfg conv w ref roi_arg time_out threshold best_match take_ss i st = Some y \<Longrightarrow>
   K = stub_cv2 \<and> cfg = stub_config \<and> conv = id \<and> w = world_black \<and> ref = [''N'']
     \<and> roi_arg = None \<and> - 0.2 \<le> threshold \<and> best_match = False
     \<and> templates st = templates store_low \<Longrightarrow> False"
proof (induction K cfg conv w ref roi_arg time_out threshold best_match take_ss i st y
         rule: wait_loop.raw_induct[rotated 1, consumes 1, case_names step])
  case (step wait_loop K cfg conv w ref roi_arg time_out threshold best_match take_ss i st y)
  from step.prems have p: "K = stub_cv2" "cfg = stub_config" "conv = id" "w = world_black"
      "ref = [''N'']" "roi_arg = None" "best_match = False"
    and th: "- 0.2 \<le> threshold" and t: "templates st = templates store_low"
    by auto
  have g: "grab world_black i = black_frame"
    by (simp add: world_black_def)
  from step.hyps have "wait_loop stub_cv2 stub_config id world_black [''N''] None time_out
       threshold False take_ss (Suc i) (st\<lparr>last_res := Some (- 0.2)\<rparr>) = Some y"
    unfolding p g Let_def search_low_black[OF t th]
    by (simp add: black_frame_is_loading)
  from step.IH[OF this] th t show ?case by simp
qed

text \<open>
  C7, as stated: with timeout 0, a capture that never matches and a reference without
  \<open>LOADING\<close>, the loop ends and returns an invalid match. It fails: while the left strip
  of the capture is black, line 152 skips the test of the timeout, and without \<open>LOADING\<close>
  in the reference nothing bypasses that. With captures that are all black (and do not
  match), the loop never returns.
\<close>

theorem wait_black_never_returns:
  "search stub_cv2 stub_config id store_low (KeyList [''N'']) black_frame (Some 0.68) None False False
     = Inr \<lparr>name = None, score = - 1, position = None, valid = False\<rparr>
   \<and> search_and_wait stub_cv2 stub_config id world_black store_low (WaitKey ''N'') None (Some 0) None False True = None"
proof -
  have "search_and_wait stub_cv2 stub_config id world_black store_low (WaitKey ''N'') None (Some 0) None False True = None"
  proof (cases "search_and_wait stub_cv2 stub_config id world_black store_low (WaitKey ''N'') None (Some 0) None False True")
    case None then show ?thesis .
  next
    case (Some y)
    then have "wait_loop stub_cv2 stub_config id world_black [''N''] None (Some 0) 0.68 False True 0 store_low = Some y"
      by (simp add: search_and_wait_def resolve_threshold_def stub_config_def)
    from black_loop_aux[OF this] show ?thesis by simp
  qed
  then show ?thesis by (simp add: stub_eval)
qed

lemma wait_loop_times_out:
  assumes nonmatch: "\<And>i. \<exists>m. search K cfg conv st (KeyList ref) (grab w i) (Some th) roi_arg False bm = Inr m \<and> \<not> valid m"
    and unsuppressed: "\<And>i. \<not> is_loading_black_roi cfg (grab w i) \<or> ''LOADING'' \<in> set ref"
    and clock: "t < time_at w n - start_time w"
  shows "i \<le> n \<Longrightarrow> templates sti = templates st \<Longrightarrow>
         \<exists>m st' shots. wait_loop K cfg conv w ref roi_arg (Some t) th bm ss i sti = Some (Inr m, st', shots)
            \<and> \<not> valid m"
proof (induction "n - i" arbitrary: i sti)
  case 0
  then have i: "i = n" by simp
  obtain m where m: "search K cfg conv st (KeyList ref) (grab w i) (Some th) roi_arg False bm = Inr m" "\<not> valid m"
    using nonmatch by blast
  have "search K cfg conv sti (KeyList ref) (grab w i) (Some th) roi_arg False bm = Inr m"
    using m(1) search_ignores_last_res[OF "0.prems"(2)] by simp
  then obtain st' r where s: "search_frame K cfg conv sti (KeyList ref) (grab w i) (Some th) roi_arg False bm = (Inr m, st', r)"
    unfolding search_def by (metis fst_conv surj_pair)
  show ?case
    using s m(2) unsuppressed[of i] clock i
    by (subst wait_loop.simps) (auto simp: Let_def)
next
  case (Suc k)
  obtain m where m: "search K cfg conv st (KeyList ref) (grab w i) (Some th) roi_arg False bm = Inr m" "\<not> valid m"
    using nonmatch by blast
  have "search K cfg conv sti (KeyList ref) (grab w i) (Some th) roi_arg False bm = Inr m"
    using m(1) search_ignores_last_res[OF Suc.prems(2)] by simp
  then obtain st' r where s: "search_frame K cfg conv sti (KeyList ref) (grab w i) (Some th) roi_arg False bm = (Inr m, st', r)"
    unfolding search_def by (metis fst_conv surj_pair)
  have t': "templates st' = templates st"
    using search_frame_keeps[of K cfg conv sti "KeyList ref" "grab w i" "Some th" roi_arg False bm] s Suc.prems(2)
    by simp
  have k: "k = n - Suc i" "Suc i \<le> n" using Suc.hyps(2) by auto
  from Suc.hyps(1)[OF k(1) k(2) t']
  obtain m' st'' shots where rec: "wait_loop K cfg conv w ref roi_arg (Some t) th bm ss (Suc i) st' = Some (Inr m', st'', shots)" "\<not> valid m'"
    by blast
  show ?case
    using s m(2) unsuppressed[of i] rec
    by (subst wait_loop.simps) (auto simp: Let_def)
qed

text \<open>
  C7, amended: with timeout 0 and captures on which \<open>search\<close> returns an invalid match,
  if on every capture the loading check is not active or the reference contains
  \<open>LOADING\<close>, and the clock at some iteration reads later than the start time, then
  \<open>search_and_wait\<close> ends and returns an invalid match.
\<close>

theorem wait_timeout_zero_returns:
  assumes "\<And>i. \<exists>m. search K cfg conv st (KeyList (as_list ref)) (grab w i)
                     (Some (resolve_threshold cfg threshold)) roi_arg False best_match = Inr m
                   \<and> \<not> valid m"
    and "\<And>i. \<not> is_loading_black_roi cfg (grab w i) \<or> ''LOADING'' \<in> set (as_list ref)"
    and "start_time w < time_at w n"
  shows "\<exists>m st' shots.
           search_and_wait K cfg conv w st ref roi_arg (Some 0) threshold best_match take_ss
             = Some (Inr m, st', shots)
           \<and> \<not> valid m"
proof -
  have c: "0 < time_at w n - start_time w" using assms(3) by simp
  show ?thesis
    unfolding search_and_wait_def Let_def
    by (rule wait_loop_times_out[OF assms(1) assms(2) c, of 0 st]) simp_all
qed

theorem wait_timeout_zero_returns_witness:
  "(\<forall>i. \<exists>m. search stub_cv2 stub_config id store_low (KeyList (as_list (WaitKey ''N'')))
               (grab world_lit i) (Some (resolve_threshold stub_config None)) None False True
             = Inr m \<and> \<not> valid m)
   \<and> (\<forall>i. \<not> is_loading_black_roi stub_config (grab world_lit i))
   \<and> start_time world_lit < time_at world_lit 1
   \<and> (\<exists>m st' shots.
         search_and_wait stub_cv2 stub_config id world_lit store_low (WaitKey ''N'') None
             (Some 0) None True True
           = Some (Inr m, st', shots)
         \<and> \<not> valid m)"
proof -
  have h1: "\<And>i. \<exists>m. search stub_cv2 stub_config id store_low (KeyList (as_list (WaitKey ''N'')))
               (grab world_lit i) (Some (resolve_threshold stub_config None)) None False True
             = Inr m \<and> \<not> valid m"
    by (simp add: world_lit_def stub_eval)
  have h2: "\<And>i. \<not> is_loading_black_roi stub_config (grab world_lit i)"
    by (simp add: is_loading_black_roi_def world_lit_def stub_eval)
  then have h2': "\<And>i. \<not> is_loading_black_roi stub_config (grab world_lit i)
                      \<or> ''LOADING'' \<in> set (as_list (WaitKey ''N''))"
    by simp
  have h3: "start_time world_lit < time_at world_lit 1"
    by (simp add: world_lit_def)
  from wait_timeout_zero_returns[OF h1 h2' h3, where take_ss = True] h1 h2 h3
  show ?thesis by blast
qed

section \<open>Best-match selection in closed form\<close>

lemma search_step_best:
  assumes "count < length scales" and "scales ! count \<noteq> 0"
    and "count < length (scores fr)" and "count < length (ref_points fr)"
    and "scores fr ! count = 0" and "ref_points fr ! count = (0, 0)"
  shows "search_step K conv t nm True inp scales names count template fr =
           Continue (fr\<lparr>
             self := (if shape0 (resize K inp (scales ! count)) > shape0 template
                         \<and> shape1 (resize K inp (scales ! count)) > shape1 template
                      then (self fr)\<lparr>last_res := Some (matchTemplate K (resize K inp (scales ! count)) template)\<rparr>
                      else self fr),
             rx := rx fr * scales ! count, ry := ry fr * scales ! count,
             rw := rw fr * scales ! count, rh := rh fr * scales ! count,
             scores := (scores fr)[count := recorded K t inp (template, scales ! count)],
             ref_points := (ref_points fr)[count :=
                 (if exceeds K t inp (template, scales ! count)
                  then candidate_point K conv nm inp
                         (rx fr * scales ! count, ry fr * scales ! count) (template, scales ! count)
                  else (0, 0))],
             template_match := Some new_TemplateMatch\<rparr>)"
proof -
  have s0: "(scores fr)[count := 0] = scores fr"
    using assms(5) list_update_id[of "scores fr" count] by simp
  have p0: "(ref_points fr)[count := (0, 0)] = ref_points fr"
    using assms(6) list_update_id[of "ref_points fr" count] by simp
  show ?thesis
    using assms(1-4)
    by (auto simp: search_step_def Let_def recorded_def exceeds_def candidate_score_def
                   candidate_point_def s0 p0)
qed

lemma search_step_best_props:
  assumes "count < length scales" and "scales ! count \<noteq> 0"
    and "count < length (scores fr)" and "count < length (ref_points fr)"
    and "scores fr ! count = 0" and "ref_points fr ! count = (0, 0)"
  shows "\<exists>fr1. search_step K conv t nm True inp scales names count template fr = Continue fr1
           \<and> scores fr1 = (scores fr)[count := recorded K t inp (template, scales ! count)]
           \<and> ref_points fr1 = (ref_points fr)[count :=
                 (if exceeds K t inp (template, scales ! count)
                  then candidate_point K conv nm inp
                         (rx fr * scales ! count, ry fr * scales ! count) (template, scales ! count)
                  else (0, 0))]
           \<and> rx fr1 = rx fr * scales ! count \<and> ry fr1 = ry fr * scales ! count
           \<and> template_match fr1 = Some new_TemplateMatch"
  by (simp add: search_step_best[OF assms])

lemma take_Suc_update:
  "i < length xs \<Longrightarrow> take (Suc i) (xs[i := v]) = take i xs @ [v]"
  by (simp add: take_Suc_conv_app_nth)

lemma search_loop_best:
  assumes "\<forall>s \<in> set scales. s \<noteq> 0"
    and "count + length tmpls = length scales"
    and "length (scores fr) = length scales" and "length (ref_points fr) = length scales"
    and "\<forall>j. count \<le> j \<and> j < length scales \<longrightarrow> scores fr ! j = 0 \<and> ref_points fr ! j = (0, 0)"
  shows "\<exists>fr'. search_loop K conv t nm True inp scales names count tmpls fr = Continue fr'
           \<and> scores fr' = take count (scores fr)
                 @ map (recorded K t inp) (zip tmpls (drop count scales))
           \<and> ref_points fr' = take count (ref_points fr)
                 @ recorded_points K conv nm t inp (rx fr, ry fr) (zip tmpls (drop count scales))
           \<and> (tmpls \<noteq> [] \<longrightarrow> template_match fr' = Some new_TemplateMatch)
           \<and> (tmpls = [] \<longrightarrow> fr' = fr)"
  using assms
proof (induction tmpls arbitrary: count fr)
  case Nil
  then show ?case by simp
next
  case (Cons template rest)
  have c: "count < length scales" using Cons.prems(2) by simp
  define s where "s = scales ! count"
  have s0: "s \<noteq> 0" using Cons.prems(1) c by (simp add: s_def)
  have z: "scores fr ! count = 0" "ref_points fr ! count = (0, 0)"
    using Cons.prems(5) c by auto
  from search_step_best_props[of count scales fr K conv t nm inp names template]
  obtain fr1 where step: "search_step K conv t nm True inp scales names count template fr = Continue fr1"
    and sc1: "scores fr1 = (scores fr)[count := recorded K t inp (template, s)]"
    and rp1: "ref_points fr1 = (ref_points fr)[count :=
                 (if exceeds K t inp (template, s)
                  then candidate_point K conv nm inp (rx fr * s, ry fr * s) (template, s)
                  else (0, 0))]"
    and o1: "rx fr1 = rx fr * s" "ry fr1 = ry fr * s"
    and tm1: "template_match fr1 = Some new_TemplateMatch"
    using c s0 z Cons.prems(3,4) unfolding s_def by auto
  have p2: "Suc count + length rest = length scales" using Cons.prems(2) by simp
  have p3: "length (scores fr1) = length scales" "length (ref_points fr1) = length scales"
    using sc1 rp1 Cons.prems(3,4) by simp_all
  have p5: "\<forall>j. Suc count \<le> j \<and> j < length scales \<longrightarrow> scores fr1 ! j = 0 \<and> ref_points fr1 ! j = (0, 0)"
    using sc1 rp1 Cons.prems(5) by auto
  from Cons.IH[OF Cons.prems(1) p2 p3 p5]
  obtain fr' where loop: "search_loop K conv t nm True inp scales names (Suc count) rest fr1 = Continue fr'"
    and sc: "scores fr' = take (Suc count) (scores fr1)
                 @ map (recorded K t inp) (zip rest (drop (Suc count) scales))"
    and rp: "ref_points fr' = take (Suc count) (ref_points fr1)
                 @ recorded_points K conv nm t inp (rx fr1, ry fr1) (zip rest (drop (Suc count) scales))"
    and tm: "rest \<noteq> [] \<longrightarrow> template_match fr' = Some new_TemplateMatch"
    and id: "rest = [] \<longrightarrow> fr' = fr1"
    by blast
  have d: "drop count scales = s # drop (Suc count) scales"
    using c by (simp add: s_def Cons_nth_drop_Suc)
  have a1: "search_loop K conv t nm True inp scales names count (template # rest) fr = Continue fr'"
    using step loop by simp
  have a2: "scores fr' = take count (scores fr)
                 @ map (recorded K t inp) (zip (template # rest) (drop count scales))"
    using sc sc1 d c Cons.prems(3) by (simp add: take_Suc_update)
  have a3: "ref_points fr' = take count (ref_points fr)
                 @ recorded_points K conv nm t inp (rx fr, ry fr) (zip (template # rest) (drop count scales))"
    using rp rp1 d c o1 Cons.prems(4) by (simp add: take_Suc_update Let_def)
  have a4: "template_match fr' = Some new_TemplateMatch"
    using tm id tm1 by (cases "rest = []") auto
  from a1 a2 a3 a4 show ?case by simp
qed

lemma lookup_all_length: "lookup_all m ks = Inr es \<Longrightarrow> length es = length ks"
  by (induction ks arbitrary: es) (auto split: option.splits sum.splits)

lemma py_max_ge: "x \<in> set xs \<Longrightarrow> x \<le> py_max xs"
  by (induction xs rule: py_max.induct) (auto simp: max_def)

lemma py_index_least: "j < py_index xs v \<Longrightarrow> xs ! j \<noteq> v"
proof (induction xs arbitrary: j)
  case Nil
  then show ?case by (simp add: py_index_def)
next
  case (Cons x xs)
  then show ?case
    by (cases j) (auto simp: py_index_def split: if_splits)
qed

lemma length_recorded_points [simp]:
  "length (recorded_points K conv nm t inp origin es) = length es"
  by (induction es arbitrary: origin) (auto simp: Let_def)

lemma select_best_positive:
  assumes "scores fr \<noteq> []" and "template_match fr = Some new_TemplateMatch"
    and "length (ref_points fr) = length (scores fr)"
    and "0 < py_max (scores fr)"
    and "length ks = length (scores fr)"
  shows "\<exists>fr'. select_best (Some ks) fr =
           Return \<lparr>name = Some (ks ! py_index (scores fr) (py_max (scores fr))),
                   score = py_max (scores fr),
                   position = Some (ref_points fr ! py_index (scores fr) (py_max (scores fr))),
                   valid = True\<rparr> fr'"
proof -
  define idx where "idx = py_index (scores fr) (py_max (scores fr))"
  have i: "idx < length (scores fr)" "scores fr ! idx = py_max (scores fr)"
    using py_index_nth[OF py_max_in_set[OF assms(1)]] by (simp_all add: idx_def)
  show ?thesis
    using assms i unfolding idx_def
    by (simp add: select_best_def Let_def name_at_def new_TemplateMatch_def)
qed

lemma select_best_nonpositive:
  assumes "scores fr \<noteq> []" and "template_match fr = Some new_TemplateMatch"
    and "\<not> 0 < py_max (scores fr)"
  shows "select_best names fr = Return new_TemplateMatch fr"
  using assms by (simp add: select_best_def)

lemma best_match_result:
  assumes "lookup_all (templates st) ks = Inr es" and "ks \<noteq> []"
    and "\<forall>e \<in> set es. snd e \<noteq> 0"
    and "roi_bound inp_img roi_arg = [a, b, c, d]"
  shows "search K cfg conv st (KeyList ks) inp_img threshold roi_arg nm True =
           Inr (best_match_of K conv nm (resolve_threshold cfg threshold) (crop inp_img a b c d)
                  (real_of_int a, real_of_int b) ks es)"
proof -
  define t where "t = resolve_threshold cfg threshold"
  define inp where "inp = crop inp_img a b c d"
  define fr where "fr = \<lparr>self = st, roi = [a, b, c, d],
              rx = real_of_int a, ry = real_of_int b, rw = real_of_int c, rh = real_of_int d,
              scores = replicate (py_len (KeyList ks)) (0::real),
              ref_points = replicate (py_len (KeyList ks)) (0::int, 0::int),
              template_match = None\<rparr>"
  define rs where "rs = map (recorded K t inp) es"
  define ps where "ps = recorded_points K conv nm t inp (real_of_int a, real_of_int b) es"
  have len: "length es = length ks" using assms(1) by (rule lookup_all_length)
  have res: "resolve_ref (templates st) (KeyList ks) True = Inr (map fst es, map snd es, Some ks, True)"
    using assms(1) by simp
  have E: "search K cfg conv st (KeyList ks) inp_img threshold roi_arg nm True
        = outcome_result (finish (Some ks)
            (search_loop K conv t nm True inp (map snd es) (Some ks) 0 (map fst es) fr))"
    unfolding search_def t_def inp_def fr_def
    by (rule search_frame_result[OF assms(4) res])
  have h1: "\<forall>s \<in> set (map snd es). s \<noteq> 0" using assms(3) by auto
  have h2: "0 + length (map fst es) = length (map snd es)" by simp
  have h3: "length (scores fr) = length (map snd es)" "length (ref_points fr) = length (map snd es)"
    using len by (simp_all add: fr_def)
  have h5: "\<forall>j. 0 \<le> j \<and> j < length (map snd es) \<longrightarrow> scores fr ! j = 0 \<and> ref_points fr ! j = (0, 0)"
    using len by (simp add: fr_def)
  have z: "zip (map fst es) (drop 0 (map snd es)) = es" by (simp add: zip_map_fst_snd)
  have o: "(rx fr, ry fr) = (real_of_int a, real_of_int b)" by (simp add: fr_def)
  have n: "map fst es \<noteq> []" using assms(2) len by auto
  from search_loop_best[OF h1 h2 h3 h5, of K conv t nm inp "Some ks"]
  obtain fr' where loop: "search_loop K conv t nm True inp (map snd es) (Some ks) 0 (map fst es) fr = Continue fr'"
    and sc: "scores fr' = rs" and rp: "ref_points fr' = ps"
    and tm: "template_match fr' = Some new_TemplateMatch"
    unfolding z o rs_def ps_def using n by auto
  have ne: "scores fr' \<noteq> []" using assms(2) len sc by (auto simp: rs_def)
  have l1: "length (ref_points fr') = length (scores fr')" by (simp add: sc rp rs_def ps_def)
  have l2: "length ks = length (scores fr')" using len by (simp add: sc rs_def)
  have F: "finish (Some ks) (Continue fr') = select_best (Some ks) fr'" by simp
  show ?thesis
  proof (cases "0 < py_max rs")
    case True
    then have "0 < py_max (scores fr')" by (simp add: sc)
    from select_best_positive[OF ne tm l1 this l2]
    obtain fr'' where "select_best (Some ks) fr' =
           Return \<lparr>name = Some (ks ! py_index rs (py_max rs)), score = py_max rs,
                   position = Some (ps ! py_index rs (py_max rs)), valid = True\<rparr> fr''"
      unfolding sc rp by blast
    then have "search K cfg conv st (KeyList ks) inp_img threshold roi_arg nm True
        = Inr \<lparr>name = Some (ks ! py_index rs (py_max rs)), score = py_max rs,
                   position = Some (ps ! py_index rs (py_max rs)), valid = True\<rparr>"
      unfolding E loop F by simp
    moreover have "best_match_of K conv nm t inp (real_of_int a, real_of_int b) ks es
        = \<lparr>name = Some (ks ! py_index rs (py_max rs)), score = py_max rs,
                   position = Some (ps ! py_index rs (py_max rs)), valid = True\<rparr>"
      using True unfolding best_match_of_def Let_def rs_def ps_def by simp
    ultimately show ?thesis unfolding t_def inp_def by simp
  next
    case False
    then have "\<not> 0 < py_max (scores fr')" by (simp add: sc)
    from select_best_nonpositive[OF ne tm this]
    have "search K cfg conv st (KeyList ks) inp_img threshold roi_arg nm True = Inr new_TemplateMatch"
      unfolding E loop F by simp
    moreover have "best_match_of K conv nm t inp (real_of_int a, real_of_int b) ks es = new_TemplateMatch"
      using False unfolding best_match_of_def Let_def rs_def by simp
    ultimately show ?thesis unfolding t_def inp_def by simp
  qed
qed

lemma py_max_pos_iff: "0 < py_max xs \<longleftrightarrow> (\<exists>x \<in> set xs. 0 < x)"
  by (induction xs rule: py_max.induct) (auto simp: max_def)

lemma recorded_pos_iff:
  "0 \<le> t \<Longrightarrow> 0 < recorded K t inp e \<longleftrightarrow> exceeds K t inp e"
  by (auto simp: recorded_def exceeds_def split: option.splits)

lemma recorded_exceeds:
  "t < v \<Longrightarrow> candidate_score K inp e = Some v \<Longrightarrow> recorded K t inp e = v"
  by (simp add: recorded_def)

lemma recorded_pos_score:
  "0 < recorded K t inp e \<Longrightarrow>
   candidate_score K inp e = Some (recorded K t inp e) \<and> t < recorded K t inp e"
  by (auto simp: recorded_def split: option.splits if_splits)

lemma best_match_valid_iff:
  assumes "0 \<le> t"
  shows "valid (best_match_of K conv nm t inp origin ks es) \<longleftrightarrow> (\<exists>e \<in> set es. exceeds K t inp e)"
proof -
  have "valid (best_match_of K conv nm t inp origin ks es)
          \<longleftrightarrow> 0 < py_max (map (recorded K t inp) es)"
    by (simp add: best_match_of_def Let_def new_TemplateMatch_def)
  also have "\<dots> \<longleftrightarrow> (\<exists>e \<in> set es. 0 < recorded K t inp e)"
    by (simp add: py_max_pos_iff)
  also have "\<dots> \<longleftrightarrow> (\<exists>e \<in> set es. exceeds K t inp e)"
    using recorded_pos_iff[OF assms] by blast
  finally show ?thesis .
qed

lemma best_match_invalid:
  assumes "\<not> valid (best_match_of K conv nm t inp origin ks es)"
  shows "best_match_of K conv nm t inp origin ks es = new_TemplateMatch"
  using assms by (auto simp: best_match_of_def Let_def split: if_splits)

lemma best_match_maximal:
  assumes "valid (best_match_of K conv nm t inp origin ks es)"
  shows "\<exists>i < length es.
           name (best_match_of K conv nm t inp origin ks es) = Some (ks ! i)
         \<and> position (best_match_of K conv nm t inp origin ks es)
             = Some (recorded_points K conv nm t inp origin es ! i)
         \<and> candidate_score K inp (es ! i) = Some (score (best_match_of K conv nm t inp origin ks es))
         \<and> t < score (best_match_of K conv nm t inp origin ks es)
         \<and> (\<forall>e \<in> set es. \<forall>v. candidate_score K inp e = Some v
               \<longrightarrow> v \<le> score (best_match_of K conv nm t inp origin ks es))
         \<and> (\<forall>j < i. candidate_score K inp (es ! j)
               \<noteq> Some (score (best_match_of K conv nm t inp origin ks es)))"
proof -
  define rs where "rs = map (recorded K t inp) es"
  define M where "M = py_max rs"
  define i where "i = py_index rs M"
  have pos: "0 < M"
    using assms by (auto simp: best_match_of_def Let_def new_TemplateMatch_def M_def rs_def split: if_splits)
  have bm: "best_match_of K conv nm t inp origin ks es
        = \<lparr>name = Some (ks ! i), score = M,
           position = Some (recorded_points K conv nm t inp origin es ! i), valid = True\<rparr>"
    using pos by (simp add: best_match_of_def Let_def M_def rs_def i_def)
  have ne: "rs \<noteq> []" using pos by (auto simp: M_def)
  have ii: "i < length rs" "rs ! i = M"
    using py_index_nth[OF py_max_in_set[OF ne]] by (simp_all add: i_def M_def)
  have il: "i < length es" using ii(1) by (simp add: rs_def)
  have ri: "recorded K t inp (es ! i) = M" using ii il by (simp add: rs_def)
  have ci: "candidate_score K inp (es ! i) = Some M" "t < M"
    using recorded_pos_score[of K t inp "es ! i"] pos ri by simp_all
  have mx: "\<forall>e \<in> set es. \<forall>v. candidate_score K inp e = Some v \<longrightarrow> v \<le> M"
  proof (intro ballI allI impI)
    fix e v assume e: "e \<in> set es" and v: "candidate_score K inp e = Some v"
    show "v \<le> M"
    proof (cases "t < v")
      case True
      then have "recorded K t inp e = v" using v by (rule recorded_exceeds)
      then have "v \<in> set rs" using e by (auto simp: rs_def)
      then show ?thesis unfolding M_def by (rule py_max_ge)
    next
      case False
      then show ?thesis using ci(2) by simp
    qed
  qed
  have tie: "\<forall>j < i. candidate_score K inp (es ! j) \<noteq> Some M"
  proof (intro allI impI)
    fix j assume j: "j < i"
    then have "rs ! j \<noteq> M" unfolding i_def by (rule py_index_least)
    moreover have "j < length es" using j il by simp
    ultimately have "recorded K t inp (es ! j) \<noteq> M" by (simp add: rs_def)
    then show "candidate_score K inp (es ! j) \<noteq> Some M"
      using recorded_exceeds[OF ci(2), of K inp "es ! j"] by blast
  qed
  show ?thesis
    unfolding bm using il ci mx tie by auto
qed

lemma recorded_points_nth:
  "i < length es \<Longrightarrow> exceeds K t inp (es ! i) \<Longrightarrow>
   recorded_points K conv nm t inp origin es ! i =
     candidate_point K conv nm inp
       (fst origin * prod_list (map snd (take (Suc i) es)),
        snd origin * prod_list (map snd (take (Suc i) es))) (es ! i)"
proof (induction es arbitrary: i origin)
  case Nil
  then show ?case by simp
next
  case (Cons e es)
  show ?case
  proof (cases i)
    case 0
    with Cons.prems show ?thesis by (simp add: Let_def)
  next
    case (Suc k)
    with Cons.prems have k: "k < length es" "exceeds K t inp (es ! k)" by simp_all
    have p: "prod_list (map snd (take (Suc i) (e # es)))
               = snd e * prod_list (map snd (take (Suc k) es))"
      using Suc by simp
    have n: "recorded_points K conv nm t inp origin (e # es) ! i
               = recorded_points K conv nm t inp (fst origin * snd e, snd origin * snd e) es ! k"
      using Suc by (simp add: Let_def)
    have q: "(e # es) ! i = es ! k" using Suc by simp
    show ?thesis
      unfolding n p q Cons.IH[OF k, of "(fst origin * snd e, snd origin * snd e)"]
      by (simp only: fst_conv snd_conv mult.assoc)
  qed
qed

lemma candidate_point_own_scale:
  "snd e \<noteq> 0 \<Longrightarrow>
   candidate_point K conv False inp (real_of_int a * snd e, real_of_int b * snd e) e
     = own_scale_center (snd (snd (snd (minMaxLoc K (matchTemplate K (resize K inp (snd e)) (fst e))))))
         (fst e) (snd e) (a, b)"
  by (simp add: candidate_point_def own_scale_center_def Let_def)

section \<open>Positions for the scale the store records\<close>





lemma fold_unit_scales:
  "(\<forall>k t s. m k = Some (t, s) \<longrightarrow> s = 1) \<Longrightarrow>
   (\<forall>k t s. fold (\<lambda>file_path m.
                let file_name = basename file_path in
                if endswith_png file_name
                then m(upper (py_slice 0 (- 4) file_name) \<mapsto> (load_template file_path 1, 1::real))
                else m) pathes m k = Some (t, s) \<longrightarrow> s = 1)"
proof (induction pathes arbitrary: m)
  case Nil
  then show ?case by simp
next
  case (Cons p ps)
  show ?case
    unfolding fold_Cons comp_def
    by (rule Cons.IH) (use Cons.prems in \<open>auto simp: Let_def\<close>)
qed

lemma init_unit_scales:
  "unit_scales (TemplateFinder_init load_template basename upper pathes)"
  unfolding unit_scales_def TemplateFinder_init_def
  using fold_unit_scales[of Map.empty basename upper load_template pathes] by simp

lemma search_keeps_unit_scales:
  "unit_scales st \<Longrightarrow>
   unit_scales (fst (snd (search_frame K cfg conv st ref inp_img threshold roi_arg nm bm)))"
  using search_frame_keeps[of K cfg conv st ref inp_img threshold roi_arg nm bm]
  by (simp add: unit_scales_def)








end
